theory Spec2Isabelle
  imports Main
begin

section \<open>Text: code units, character classes and the jstring primitives of the source\<close>

text \<open>
  The backend (\<^verbatim>\<open>motordex-backend/server/server.ts\<close>) works on the text that the
  OCR collaborator returns. A JavaScript jstring is a sequence of UTF-16 code units, and
  its \<^verbatim>\<open>length\<close> counts them: a text is modelled as the list of its code units, each
  an integer. \<open>str\<close> turns a literal into such a list.
\<close>

type_synonym jstring = "int list"

definition str :: "string \<Rightarrow> jstring" where
  "str s = map of_char s"

datatype cclass = Upper | Digit | Space | Lit int

text \<open>
  \<^verbatim>\<open>[A-Z]\<close>, \<^verbatim>\<open>\d\<close>, \<^verbatim>\<open>\s\<close> and a literal character. The class \<^verbatim>\<open>\s\<close> is
  the white space and the line terminators of ECMAScript: U+0009 to U+000D, U+0020,
  U+00A0, U+1680, U+2000 to U+200A, U+2028, U+2029, U+202F, U+205F, U+3000 and U+FEFF.
\<close>

fun in_class :: "cclass \<Rightarrow> int \<Rightarrow> bool" where
  "in_class Upper c = (65 \<le> c \<and> c \<le> 90)"
| "in_class Digit c = (48 \<le> c \<and> c \<le> 57)"
| "in_class Space c =
     ((9 \<le> c \<and> c \<le> 13) \<or> c = 32 \<or> c = 160 \<or> c = 5760 \<or> (8192 \<le> c \<and> c \<le> 8202)
      \<or> c = 8232 \<or> c = 8233 \<or> c = 8239 \<or> c = 8287 \<or> c = 12288 \<or> c = 65279)"
| "in_class (Lit x) c = (c = x)"

definition isSpace :: "int \<Rightarrow> bool" where
  "isSpace c = in_class Space c"

text \<open>
  \<^verbatim>\<open>toUpperCase\<close> is Unicode's default case conversion, in which one code unit can
  become several. The model follows it on every code unit below 256 and on every code
  unit whose upper-case form contains a code unit below 256: the letters \<open>a\<close> to \<open>z\<close>
  and U+00E0 to U+00FE without U+00F7 move down by 32, and the table \<open>specialUpper\<close>
  lists the others, U+00B5, U+00DF (to \<open>SS\<close>), U+00FF, U+0131 (to \<open>I\<close>), U+0149, U+017F
  (to \<open>S\<close>), U+01F0, U+1E96 to U+1E9A and the ligatures U+FB00 to U+FB06 (to \<open>FF\<close>,
  \<open>FI\<close>, \<open>FL\<close>, \<open>FFI\<close>, \<open>FFL\<close>, \<open>ST\<close>, \<open>ST\<close>). Every other code unit has an
  upper-case form outside the classes above, which are all that the plate logic tests,
  and is left as it is. \<^verbatim>\<open>toLowerCase\<close> is modelled in the same way, with the table
  \<open>specialLower\<close>.
\<close>

definition specialUpper :: "(int \<times> int list) list" where
  "specialUpper =
     [(181, [924]), (223, [83, 83]), (255, [376]), (305, [73]), (329, [700, 78]),
      (383, [83]), (496, [74, 780]), (7830, [72, 817]), (7831, [84, 776]),
      (7832, [87, 778]), (7833, [89, 778]), (7834, [65, 702]), (64256, [70, 70]),
      (64257, [70, 73]), (64258, [70, 76]), (64259, [70, 70, 73]), (64260, [70, 70, 76]),
      (64261, [83, 84]), (64262, [83, 84])]"

definition upperChar :: "int \<Rightarrow> int list" where
  "upperChar c =
     (if (97 \<le> c \<and> c \<le> 122) \<or> (224 \<le> c \<and> c \<le> 254 \<and> c \<noteq> 247) then [c - 32]
      else (case map_of specialUpper c of Some us \<Rightarrow> us | None \<Rightarrow> [c]))"

definition specialLower :: "(int \<times> int list) list" where
  "specialLower =
     [(304, [105, 775]), (376, [255]), (7838, [223]), (8490, [107]), (8491, [229])]"

definition lowerChar :: "int \<Rightarrow> int list" where
  "lowerChar c =
     (if (65 \<le> c \<and> c \<le> 90) \<or> (192 \<le> c \<and> c \<le> 222 \<and> c \<noteq> 215) then [c + 32]
      else (case map_of specialLower c of Some us \<Rightarrow> us | None \<Rightarrow> [c]))"

text \<open>\<^verbatim>\<open>s.toUpperCase()\<close> and \<^verbatim>\<open>s.toLowerCase()\<close>.\<close>

definition toUpperCase :: "jstring \<Rightarrow> jstring" where
  "toUpperCase s = concat (map upperChar s)"

definition toLowerCase :: "jstring \<Rightarrow> jstring" where
  "toLowerCase s = concat (map lowerChar s)"

text \<open>\<^verbatim>\<open>s.trim()\<close>: leading and trailing white space removed.\<close>

definition trim :: "jstring \<Rightarrow> jstring" where
  "trim s = rev (dropWhile isSpace (rev (dropWhile isSpace s)))"

text \<open>\<^verbatim>\<open>s.replace(/\s+/g, '')\<close>: every white-space character removed.\<close>

definition stripSpaces :: "jstring \<Rightarrow> jstring" where
  "stripSpaces s = filter (\<lambda>c. \<not> isSpace c) s"

text \<open>\<^verbatim>\<open>s.replace(/\n/g, ' ')\<close>.\<close>

definition replaceNewlines :: "jstring \<Rightarrow> jstring" where
  "replaceNewlines s = map (\<lambda>c. if c = 10 then 32 else c) s"

text \<open>\<^verbatim>\<open>s.replace(/\s+/g, ' ')\<close>: every maximal run of white space becomes one
  space.\<close>

function collapseSpaces :: "jstring \<Rightarrow> jstring" where
  "collapseSpaces [] = []"
| "collapseSpaces (c # cs) =
     (if isSpace c then 32 # collapseSpaces (dropWhile isSpace cs)
      else c # collapseSpaces cs)"
  by pat_completeness auto
termination
  by (relation "measure length") (auto simp: length_dropWhile_le less_Suc_eq_le)

text \<open>\<^verbatim>\<open>xs.join(sep)\<close>.\<close>

fun join :: "jstring \<Rightarrow> jstring list \<Rightarrow> jstring" where
  "join sep [] = []"
| "join sep [x] = x"
| "join sep (x # y # ys) = x @ sep @ join sep (y # ys)"

text \<open>
  The normalisation that the source applies wherever it produces or tests a plate:
  \<^verbatim>\<open>text.replace(/\s+/g, '').toUpperCase()\<close>.
\<close>

definition cleanPlate :: "jstring \<Rightarrow> jstring" where
  "cleanPlate s = toUpperCase (stripSpaces s)"


section \<open>The regular expressions of the source\<close>

text \<open>
  Every regular expression of the plate logic is a sequence of quantified character
  classes: an item \<open>(cl, lo, hi)\<close> stands for \<^verbatim>\<open>cl{lo,hi}\<close>, and \<open>hi = None\<close> for an
  unbounded quantifier (\<^verbatim>\<open>\s*\<close> is \<open>(Space, 0, None)\<close>). Quantifiers are greedy and the
  matcher backtracks: \<open>reps\<close> lists the repetition counts an item can take at the head of
  the text, longest first, and \<open>run\<close> lists the lengths of all matches of an item
  sequence at the head of the text, in the order in which the backtracking matcher finds
  them.
\<close>

type_synonym item = "cclass \<times> nat \<times> nat option"

fun reps :: "item \<Rightarrow> jstring \<Rightarrow> nat list" where
  "reps (cl, lo, hi) s =
     (let m = length (takeWhile (in_class cl) s);
          top = (case hi of None \<Rightarrow> m | Some h \<Rightarrow> min h m)
      in rev [lo ..< Suc top])"

fun run :: "item list \<Rightarrow> jstring \<Rightarrow> nat list" where
  "run [] s = [0]"
| "run (it # its) s =
     concat (map (\<lambda>k. map (\<lambda>n. k + n) (run its (drop k s))) (reps it s))"

text \<open>\<^verbatim>\<open>/^items$/.test(s)\<close>: some match at the head of the text takes all of it.\<close>

definition test_anchored :: "item list \<Rightarrow> jstring \<Rightarrow> bool" where
  "test_anchored its s = (length s \<in> set (run its s))"

text \<open>
  What a match looks like, for the statements below: a text \<open>fits\<close> an item when it is a
  repetition of the item's class of an allowed length, and a text has the \<open>shape\<close> of an
  item sequence when it splits into consecutive pieces that fit the items in turn.
\<close>

fun fits :: "item \<Rightarrow> jstring \<Rightarrow> bool" where
  "fits (cl, lo, hi) u =
     (lo \<le> length u \<and> (case hi of None \<Rightarrow> True | Some h \<Rightarrow> length u \<le> h)
      \<and> list_all (in_class cl) u)"

fun shape :: "item list \<Rightarrow> jstring \<Rightarrow> bool" where
  "shape [] w = (w = [])"
| "shape (it # its) w =
     list_ex (\<lambda>k. fits it (take k w) \<and> shape its (drop k w)) [0 ..< Suc (length w)]"

text \<open>
  \<^verbatim>\<open>s.match(/items/g)\<close>: the matches found from left to right, each search starting
  where the previous match ended; where no match starts at a position the search moves on
  by one character, and after an empty match it moves on by one character as well. The
  source treats the result \<^verbatim>\<open>null\<close> (no match) like the empty list.
\<close>

function matchGlobal :: "item list \<Rightarrow> jstring \<Rightarrow> jstring list" where
  "matchGlobal its [] = (case run its [] of [] \<Rightarrow> [] | n # _ \<Rightarrow> [[]])"
| "matchGlobal its (c # cs) =
     (case run its (c # cs) of
        [] \<Rightarrow> matchGlobal its cs
      | n # _ \<Rightarrow> take n (c # cs) #
          (if n = 0 then matchGlobal its cs else matchGlobal its (drop n (c # cs))))"
  by pat_completeness auto
termination
  by (relation "measure (\<lambda>(its, s). length s)") auto

text \<open>
  The same search with the positions kept, for the statements below: \<open>matchSpans its off s\<close>
  lists the start and the length of every match that the search reports in \<open>s\<close>, the
  positions counted from \<open>off\<close>.
\<close>

function matchSpans :: "item list \<Rightarrow> nat \<Rightarrow> jstring \<Rightarrow> (nat \<times> nat) list" where
  "matchSpans its off [] = (case run its [] of [] \<Rightarrow> [] | n # _ \<Rightarrow> [(off, 0)])"
| "matchSpans its off (c # cs) =
     (case run its (c # cs) of
        [] \<Rightarrow> matchSpans its (Suc off) cs
      | n # _ \<Rightarrow> (off, n) #
          (if n = 0 then matchSpans its (Suc off) cs
           else matchSpans its (off + n) (drop n (c # cs))))"
  by pat_completeness auto
termination
  by (relation "measure (\<lambda>(its, off, s). length s)") auto


section \<open>The plate matcher\<close>

text \<open>
  \<^verbatim>\<open>isValidUKLicensePlate\<close> (server.ts, lines 290 to 312) and its table
  \<^verbatim>\<open>patterns\<close>, in the order of the source.
\<close>

definition currentFormat :: "item list" where
  "currentFormat = [(Upper, 2, Some 2), (Digit, 2, Some 2), (Upper, 3, Some 3)]"

definition prefixFormat :: "item list" where
  "prefixFormat = [(Upper, 1, Some 1), (Digit, 1, Some 3), (Upper, 3, Some 3)]"

definition suffixFormat :: "item list" where
  "suffixFormat = [(Upper, 3, Some 3), (Digit, 1, Some 3), (Upper, 1, Some 1)]"

definition datelessFormat :: "item list" where
  "datelessFormat = [(Upper, 1, Some 3), (Digit, 1, Some 4)]"

definition partialFirst :: "item list" where
  "partialFirst = [(Upper, 2, Some 2), (Digit, 2, Some 2)]"

definition partialSecond :: "item list" where
  "partialSecond = [(Upper, 3, Some 3)]"

definition patterns :: "item list list" where
  "patterns =
     [currentFormat, prefixFormat, suffixFormat, datelessFormat, partialFirst, partialSecond]"

text \<open>\<^verbatim>\<open>patterns.some(pattern => pattern.test(s))\<close>: the structural test of a text as it
  is given.\<close>

definition matchesSomePattern :: "jstring \<Rightarrow> bool" where
  "matchesSomePattern s = list_ex (\<lambda>pattern. test_anchored pattern s) patterns"

definition isValidUKLicensePlate :: "jstring \<Rightarrow> bool" where
  "isValidUKLicensePlate text =
     (let cleanText = cleanPlate text
      in if 7 \<le> length cleanText \<and> test_anchored currentFormat cleanText then True
         else matchesSomePattern cleanText)"


section \<open>Candidate extraction\<close>

text \<open>The annotation of the OCR collaborator (\<^verbatim>\<open>TextAnnotation\<close>); \<open>localeOpt\<close> is the
  optional field \<^verbatim>\<open>locale\<close>.\<close>

record TextAnnotation =
  localeOpt :: "jstring option"
  description :: jstring
  vertices :: "(int \<times> int) list"

text \<open>
  \<^verbatim>\<open>[...new Set(plates)]\<close>: the values are inserted into the set one after the other; a
  value that is present already is skipped, and the set is read in insertion order.
\<close>

definition dedupe :: "jstring list \<Rightarrow> jstring list" where
  "dedupe plates = foldl (\<lambda>seen p. if p \<in> set seen then seen else seen @ [p]) [] plates"

text \<open>\<^verbatim>\<open>/[A-Z]{2}\d{2}\s*[A-Z]{3}/g\<close>, the expression of method 1.\<close>

definition fullTextRegex :: "item list" where
  "fullTextRegex = [(Upper, 2, Some 2), (Digit, 2, Some 2), (Space, 0, None), (Upper, 3, Some 3)]"

text \<open>\<^verbatim>\<open>fullText.replace(/\n/g, ' ').replace(/\s+/g, ' ').trim()\<close>.\<close>

definition cleanFullText :: "jstring \<Rightarrow> jstring" where
  "cleanFullText fullText = trim (collapseSpaces (replaceNewlines fullText))"

text \<open>Method 1: the matches of the expression in the cleaned full text.\<close>

definition fullTextPlates :: "jstring \<Rightarrow> jstring list" where
  "fullTextPlates fullText =
     (if fullText \<noteq> [] then
        map cleanPlate (matchGlobal fullTextRegex (cleanFullText fullText))
      else [])"

text \<open>Method 2: \<^verbatim>\<open>annotations.forEach\<close>, over all annotations.\<close>

fun annotationPlates :: "TextAnnotation list \<Rightarrow> jstring list" where
  "annotationPlates [] = []"
| "annotationPlates (annotation # rest) =
     (let text = trim (description annotation)
      in (if text \<noteq> [] \<and> isValidUKLicensePlate text then [cleanPlate text] else [])
         @ annotationPlates rest)"

text \<open>Method 3: the loop over \<open>i < textSegments.length - 1\<close>.\<close>

fun pairPlates :: "jstring list \<Rightarrow> jstring list" where
  "pairPlates (a # b # rest) =
     (let combined = a @ str '' '' @ b
      in (if isValidUKLicensePlate combined then [cleanPlate combined] else [])
         @ pairPlates (b # rest))"
| "pairPlates _ = []"

text \<open>Method 4: the loop over \<open>i < textSegments.length - 2\<close>.\<close>

fun triplePlates :: "jstring list \<Rightarrow> jstring list" where
  "triplePlates (a # b # c # rest) =
     (let combined = a @ b @ str '' '' @ c
      in (if isValidUKLicensePlate combined then [cleanPlate combined] else [])
         @ triplePlates (b # c # rest))"
| "triplePlates _ = []"

text \<open>
  \<^verbatim>\<open>textSegments\<close>: the trimmed descriptions of the annotations after the first, the
  empty ones filtered out.
\<close>

definition textSegments :: "TextAnnotation list \<Rightarrow> jstring list" where
  "textSegments annotations =
     filter (\<lambda>t. t \<noteq> []) (map (\<lambda>a. trim (description a)) (drop 1 annotations))"

text \<open>The list \<^verbatim>\<open>plates\<close> before the duplicates are removed.\<close>

definition allPlates :: "jstring \<Rightarrow> TextAnnotation list \<Rightarrow> jstring list" where
  "allPlates fullText annotations =
     fullTextPlates fullText @ annotationPlates annotations
     @ pairPlates (textSegments annotations) @ triplePlates (textSegments annotations)"

text \<open>
  \<^verbatim>\<open>extractLicensePlates\<close> (lines 315 to 370). The source function closes over
  \<^verbatim>\<open>fullText\<close>, which is a parameter here.
\<close>

definition extractLicensePlates :: "jstring \<Rightarrow> TextAnnotation list \<Rightarrow> jstring list" where
  "extractLicensePlates fullText annotations = dedupe (allPlates fullText annotations)"

text \<open>An annotation that carries the text of a literal.\<close>

definition ann :: "string \<Rightarrow> TextAnnotation" where
  "ann t = \<lparr>localeOpt = None, description = str t, vertices = []\<rparr>"

text \<open>The annotations of the example of the specification (section 8).\<close>

definition yfAnnotations :: "TextAnnotation list" where
  "yfAnnotations = map ann [''YF65CVK plate photo'', ''YF'', ''65'', ''CVK'']"

text \<open>
  The value of \<^verbatim>\<open>fullText\<close> in the request handler:
  \<^verbatim>\<open>textAnnotations[0]?.description?.trim()\<close>; the handler has returned before when there
  is no annotation.
\<close>

fun fullTextOf :: "TextAnnotation list \<Rightarrow> jstring" where
  "fullTextOf [] = []"
| "fullTextOf (a # _) = trim (description a)"

text \<open>The plates that the handler detects in a sequence of annotations.\<close>

definition detectedPlates :: "TextAnnotation list \<Rightarrow> jstring list" where
  "detectedPlates annotations = extractLicensePlates (fullTextOf annotations) annotations"


section \<open>The registry lookup\<close>

text \<open>The flat record that the backend returns to the frontend (\<^verbatim>\<open>VehicleData\<close>);
  \<open>vehicle_make\<close> is the field \<^verbatim>\<open>make\<close>.\<close>

record VehicleData =
  registrationNumber :: jstring
  year :: jstring
  vehicle_make :: jstring
  model :: jstring
  bodystyle :: jstring
  color :: jstring
  engine :: jstring
  cylinders :: jstring
  gears :: jstring
  fuel_type :: jstring
  date_first_registered :: jstring
  mot_due_status :: jstring
  mot_due_ends :: jstring
  tax_due_status :: jstring
  tax_due_ends :: jstring
  power_bhp :: jstring
  power_kw :: jstring
  max_speed_mph :: jstring
  fuel_economy_combined :: jstring
  fuel_economy_extra_urban :: jstring
  fuel_economy_urban :: jstring
  co2_emission :: jstring
  ved_co2_band :: jstring

text \<open>
  The nested objects of the registry's payload (\<^verbatim>\<open>VehicleDatabasesResponse.data\<close>), each
  field named by its path.
\<close>

record VehicleDescription =
  vd_year :: jstring
  vd_make :: jstring
  vd_model :: jstring
  vd_bodystyle :: jstring
  vd_color :: jstring
  vd_engine :: jstring
  vd_cylinders :: jstring
  vd_gears :: jstring
  vd_fuel_type :: jstring

record DueEntry =
  due_status :: jstring
  due_ends_on :: jstring

record ApiData =
  api_registration_number :: jstring
  vehicle_description :: VehicleDescription
  vehicle_registration_date_first_registered :: jstring
  mot_tax_dues_mot_due :: DueEntry
  mot_tax_dues_tax_due :: DueEntry
  vehicle_performance_power_bhp :: jstring
  vehicle_performance_power_kw :: jstring
  vehicle_performance_max_speed_mph :: jstring
  fuel_economy_combined_mpg :: jstring
  fuel_economy_extra_urban_mpg :: jstring
  fuel_economy_urban_cold_mpg :: jstring
  co2_emissions_figures_co2_emission :: jstring
  co2_emissions_figures_ved_co2_band :: jstring

text \<open>
  The body of a resolved request. \<open>data = None\<close> stands for a body in which \<^verbatim>\<open>data\<close> or
  one of its nested objects is absent: reading through it raises a \<^verbatim>\<open>TypeError\<close> inside
  the \<^verbatim>\<open>try\<close> block.
\<close>

record VehicleDatabasesResponse =
  status :: jstring
  data :: "ApiData option"

text \<open>
  What \<^verbatim>\<open>axios.get\<close> can do: resolve with a body (a 2xx answer), fail with the answer
  of the registry (any other HTTP status; the flag says whether the answer has a body),
  fail without an answer (the timeout of 10000 ms, a network failure), or fail with an
  error that is not an axios error.
\<close>

datatype RegistryReply =
    Resolved VehicleDatabasesResponse
  | ErrorResponse nat bool
  | NoResponse
  | NonAxiosError

text \<open>The projection of the payload into \<^verbatim>\<open>VehicleData\<close> (lines 187 to 212).\<close>

definition toVehicleData :: "ApiData \<Rightarrow> VehicleData" where
  "toVehicleData apiData =
     \<lparr>registrationNumber = api_registration_number apiData,
      year = vd_year (vehicle_description apiData),
      vehicle_make = vd_make (vehicle_description apiData),
      model = vd_model (vehicle_description apiData),
      bodystyle = vd_bodystyle (vehicle_description apiData),
      color = vd_color (vehicle_description apiData),
      engine = vd_engine (vehicle_description apiData),
      cylinders = vd_cylinders (vehicle_description apiData),
      gears = vd_gears (vehicle_description apiData),
      fuel_type = vd_fuel_type (vehicle_description apiData),
      date_first_registered = vehicle_registration_date_first_registered apiData,
      mot_due_status = due_status (mot_tax_dues_mot_due apiData),
      mot_due_ends = due_ends_on (mot_tax_dues_mot_due apiData),
      tax_due_status = due_status (mot_tax_dues_tax_due apiData),
      tax_due_ends = due_ends_on (mot_tax_dues_tax_due apiData),
      power_bhp = vehicle_performance_power_bhp apiData,
      power_kw = vehicle_performance_power_kw apiData,
      max_speed_mph = vehicle_performance_max_speed_mph apiData,
      fuel_economy_combined = fuel_economy_combined_mpg apiData,
      fuel_economy_extra_urban = fuel_economy_extra_urban_mpg apiData,
      fuel_economy_urban = fuel_economy_urban_cold_mpg apiData,
      co2_emission = co2_emissions_figures_co2_emission apiData,
      ved_co2_band = co2_emissions_figures_ved_co2_band apiData\<rparr>"

text \<open>
  \<^verbatim>\<open>lookupVehicle\<close> (lines 164 to 230). The registry is a function from the key in the
  request's URL to what the request does. The result is the value that the source returns
  (\<open>None\<close> for \<^verbatim>\<open>null\<close>) and the keys of the requests it has sent; \<open>regNumber\<close> is
  the parameter \<^verbatim>\<open>registrationNumber\<close>.
\<close>

definition lookupVehicle ::
  "(jstring \<Rightarrow> RegistryReply) \<Rightarrow> jstring \<Rightarrow> VehicleData option \<times> jstring list" where
  "lookupVehicle registry regNumber =
     (let cleanReg = toUpperCase (stripSpaces regNumber)
      in (case registry cleanReg of
            Resolved response \<Rightarrow>
              (if status response \<noteq> str ''success'' then None
               else (case data response of
                       None \<Rightarrow> None
                     | Some apiData \<Rightarrow> Some (toVehicleData apiData)))
          | ErrorResponse st hasData \<Rightarrow> (if st = 404 then None else None)
          | NoResponse \<Rightarrow> None
          | NonAxiosError \<Rightarrow> None,
          [cleanReg]))"


text \<open>
  The replies after which the source returns \<^verbatim>\<open>null\<close>: every failed request, a body
  whose status is not \<^verbatim>\<open>success\<close>, and a body that lacks the payload.
\<close>

fun isFailure :: "RegistryReply \<Rightarrow> bool" where
  "isFailure (Resolved response) = (status response \<noteq> str ''success'' \<or> data response = None)"
| "isFailure (ErrorResponse st hasData) = True"
| "isFailure NoResponse = True"
| "isFailure NonAxiosError = True"

text \<open>
  Two registries: one whose requests all run into the timeout, and one that answers every
  request with status 404 (no such vehicle).
\<close>

definition registryTimeout :: "jstring \<Rightarrow> RegistryReply" where
  "registryTimeout key = NoResponse"

definition registryAbsent :: "jstring \<Rightarrow> RegistryReply" where
  "registryAbsent key = ErrorResponse 404 True"


section \<open>The request handlers\<close>

text \<open>
  The JSON answer of \<^verbatim>\<open>POST /upload\<close>. \<open>textOut\<close> and \<open>fullTextOut\<close> are the fields
  \<^verbatim>\<open>text\<close> and \<^verbatim>\<open>fullText\<close>; an optional field that the answer does not carry is
  \<open>None\<close>, and so is \<^verbatim>\<open>vehicleData: null\<close>.
\<close>

record UploadResponse =
  hasText :: bool
  textOut :: "TextAnnotation list"
  fullTextOut :: "jstring option"
  allText :: "jstring option"
  licensePlates :: "jstring list option"
  vehicleData :: "VehicleData option"
  message :: jstring

text \<open>\<^verbatim>\<open>/^\d{2}\.\d{2}\.\d{2,4}\s+\d{1,2}:\d{2}:\d{2}$/\<close>; 46 is the full stop and 58 the
  colon.\<close>

definition timestampRegex :: "item list" where
  "timestampRegex =
     [(Digit, 2, Some 2), (Lit 46, 1, Some 1), (Digit, 2, Some 2),
      (Lit 46, 1, Some 1), (Digit, 2, Some 4), (Space, 1, None),
      (Digit, 1, Some 2), (Lit 58, 1, Some 1), (Digit, 2, Some 2),
      (Lit 58, 1, Some 1), (Digit, 2, Some 2)]"

text \<open>
  The handler of \<^verbatim>\<open>POST /upload\<close> from the point where the OCR collaborator has
  answered (lines 251 to 430): the answer and the keys of the registry requests sent.
\<close>

definition upload ::
  "(jstring \<Rightarrow> RegistryReply) \<Rightarrow> TextAnnotation list \<Rightarrow> UploadResponse \<times> jstring list" where
  "upload registry textAnnotations =
     (if textAnnotations = [] then
        (\<lparr>hasText = False, textOut = [], fullTextOut = None, allText = None,
          licensePlates = None, vehicleData = None,
          message = str ''No text detected in the image''\<rparr>, [])
      else
        (let fullText = fullTextOf textAnnotations;
             isTimestamp = test_anchored timestampRegex (trim fullText);
             isShortMeaningless = (fullText \<noteq> [] \<and> length (trim fullText) < 2);
             plates = extractLicensePlates fullText textAnnotations;
             allTextJoined = join (str '' | '') (map description textAnnotations)
         in if plates \<noteq> [] then
              (case lookupVehicle registry (hd plates) of
                 (found, requests) \<Rightarrow>
                   (\<lparr>hasText = True, textOut = textAnnotations,
                     fullTextOut = Some (join (str '', '') plates), allText = Some allTextJoined,
                     licensePlates = Some plates, vehicleData = found,
                     message =
                       (case found of
                          Some _ \<Rightarrow> str ''License plate detected: '' @ hd plates @ str '' - Vehicle found!''
                        | None \<Rightarrow> str ''License plate(s) detected: '' @ join (str '', '') plates
                            @ str '' - Vehicle not found in database'')\<rparr>,
                    requests))
            else if fullText \<noteq> [] \<and> \<not> isTimestamp \<and> \<not> isShortMeaningless then
              (\<lparr>hasText = True, textOut = textAnnotations, fullTextOut = Some fullText,
                allText = Some allTextJoined, licensePlates = Some [], vehicleData = None,
                message = str ''Text detected but no valid UK license plates found''\<rparr>, [])
            else
              (\<lparr>hasText = False, textOut = [], fullTextOut = None, allText = None,
                licensePlates = Some [], vehicleData = None,
                message = str ''No meaningful text or license plates detected in the image''\<rparr>,
               [])))"

text \<open>
  The answer of \<^verbatim>\<open>POST /vehicle-lookup\<close> (lines 438 to 466): the HTTP status, and the
  fields \<^verbatim>\<open>success\<close>, \<^verbatim>\<open>vehicleData\<close>, \<^verbatim>\<open>error\<close> and \<^verbatim>\<open>message\<close>.
\<close>

record LookupResponse =
  httpStatus :: nat
  success :: "bool option"
  lookupData :: "VehicleData option"
  errorText :: "jstring option"
  lookupMessage :: "jstring option"

definition vehicleLookup :: "(jstring \<Rightarrow> RegistryReply) \<Rightarrow> jstring \<Rightarrow> LookupResponse" where
  "vehicleLookup registry regNumber =
     (if regNumber = [] then
        \<lparr>httpStatus = 400, success = None, lookupData = None,
         errorText = Some (str ''Registration number is required''), lookupMessage = None\<rparr>
      else
        (case fst (lookupVehicle registry regNumber) of
           Some v \<Rightarrow>
             \<lparr>httpStatus = 200, success = Some True, lookupData = Some v, errorText = None,
              lookupMessage = Some (str ''Vehicle details found for '' @ regNumber)\<rparr>
         | None \<Rightarrow>
             \<lparr>httpStatus = 404, success = Some False, lookupData = None,
              errorText = Some (str ''Vehicle not found''),
              lookupMessage =
                Some (str ''No vehicle found for registration number: '' @ regNumber)\<rparr>))"


section \<open>The collection of the mobile application\<close>

text \<open>
  \<^verbatim>\<open>CollectedVehicle\<close> (motorDexCamera.tsx); \<open>cv_id\<close>, \<open>cv_make\<close> and \<open>cv_model\<close> are
  the fields \<^verbatim>\<open>id\<close>, \<^verbatim>\<open>make\<close> and \<^verbatim>\<open>model\<close>.
\<close>

record CollectedVehicle =
  cv_id :: jstring
  cv_make :: jstring
  cv_model :: jstring
  imageUri :: jstring
  dateSpotted :: jstring
  fullModel :: jstring

text \<open>
  The value under the key \<^verbatim>\<open>vehicleCollection\<close> of the device's storage is \<open>None\<close> when
  nothing has been stored; the source then starts from the empty collection.
\<close>

definition collectionOf :: "CollectedVehicle list option \<Rightarrow> CollectedVehicle list" where
  "collectionOf stored = (case stored of None \<Rightarrow> [] | Some collection \<Rightarrow> collection)"

text \<open>\<^verbatim>\<open>`${vehicle.make} ${vehicle.model}`.toLowerCase()\<close>.\<close>

definition fullModelKey :: "VehicleData \<Rightarrow> jstring" where
  "fullModelKey vehicle = toLowerCase (vehicle_make vehicle @ str '' '' @ model vehicle)"

text \<open>A vehicle of a given make and model, its other fields empty.\<close>

definition vehicleOf :: "jstring \<Rightarrow> jstring \<Rightarrow> VehicleData" where
  "vehicleOf mk mdl =
     \<lparr>registrationNumber = [], year = [], vehicle_make = mk, model = mdl, bodystyle = [],
      color = [], engine = [], cylinders = [], gears = [], fuel_type = [],
      date_first_registered = [], mot_due_status = [], mot_due_ends = [],
      tax_due_status = [], tax_due_ends = [], power_bhp = [], power_kw = [],
      max_speed_mph = [], fuel_economy_combined = [], fuel_economy_extra_urban = [],
      fuel_economy_urban = [], co2_emission = [], ved_co2_band = []\<rparr>"

text \<open>A stored collection of one vehicle.\<close>

definition sampleStored :: "CollectedVehicle list option" where
  "sampleStored =
     Some [\<lparr>cv_id = str ''1700000000000'', cv_make = str ''Audi'', cv_model = str ''Q3 TDI'',
            imageUri = str ''file:///a.jpg'', dateSpotted = str ''2023-11-14T22:13:20.000Z'',
            fullModel = str ''audi q3 tdi''\<rparr>]"

text \<open>
  \<^verbatim>\<open>saveToCollection\<close> (motorDexCamera.tsx, lines 110 to 164). \<open>readOk\<close> and \<open>writeOk\<close>
  say whether reading and writing the storage succeed (a failure is caught by the source,
  which then returns \<^verbatim>\<open>false\<close>); \<open>nowId\<close> and \<open>nowIso\<close> are
  \<^verbatim>\<open>Date.now().toString()\<close> and \<^verbatim>\<open>new Date().toISOString()\<close>. The result is the
  returned flag and the stored value afterwards.
\<close>

definition saveToCollection ::
  "bool \<Rightarrow> bool \<Rightarrow> jstring \<Rightarrow> jstring \<Rightarrow> CollectedVehicle list option \<Rightarrow> VehicleData \<Rightarrow> jstring
     \<Rightarrow> bool \<times> CollectedVehicle list option" where
  "saveToCollection readOk writeOk nowId nowIso stored vehicle uri =
     (if \<not> readOk then (False, stored)
      else
        (let collection = collectionOf stored;
             key = fullModelKey vehicle;
             isDuplicate = list_ex (\<lambda>item. fullModel item = key) collection
         in if isDuplicate then (False, stored)
            else
              (let newVehicle =
                     \<lparr>cv_id = nowId, cv_make = vehicle_make vehicle, cv_model = model vehicle,
                      imageUri = uri, dateSpotted = nowIso, fullModel = key\<rparr>
               in if writeOk then (True, Some (collection @ [newVehicle]))
                  else (False, stored))))"




section \<open>Facts about the text primitives\<close>

lemma specialUpper_entry:
  "map_of specialUpper c = Some us \<Longrightarrow> (c, us) \<in> set specialUpper"
  by (rule map_of_SomeD)

lemma specialUpper_facts:
  "list_all (\<lambda>(k, us). 181 \<le> k \<and> \<not> isSpace k \<and> \<not> in_class Upper k \<and> \<not> in_class Digit k
      \<and> list_all (\<lambda>u. \<not> isSpace u) us \<and> concat (map upperChar us) = us) specialUpper"
  by code_simp

lemma specialUpper_SomeD:
  assumes "map_of specialUpper c = Some us"
  shows "181 \<le> c" "list_all (\<lambda>u. \<not> isSpace u) us" "concat (map upperChar us) = us"
  using specialUpper_facts map_of_SomeD[OF assms] by (auto simp: list_all_iff)

lemma specialUpper_None: "c < 181 \<Longrightarrow> map_of specialUpper c = None"
  using specialUpper_SomeD(1)[of c] by (cases "map_of specialUpper c") auto

lemma specialUpper_None_range: "192 \<le> c \<Longrightarrow> c \<le> 222 \<Longrightarrow> map_of specialUpper c = None"
  by (simp add: specialUpper_def)

lemma upperChar_Space: "isSpace c \<Longrightarrow> upperChar c = [c]"
proof -
  assume s: "isSpace c"
  have "map_of specialUpper c = None"
  proof (cases "map_of specialUpper c")
    case (Some us)
    with specialUpper_facts map_of_SomeD[OF Some] s show ?thesis by (auto simp: list_all_iff)
  qed simp
  moreover have "\<not> ((97 \<le> c \<and> c \<le> 122) \<or> (224 \<le> c \<and> c \<le> 254 \<and> c \<noteq> 247))"
    using s by (auto simp: isSpace_def)
  ultimately show ?thesis unfolding upperChar_def by auto
qed

lemma upperChar_fix: "in_class Upper c \<or> in_class Digit c \<Longrightarrow> upperChar c = [c]"
  by (auto simp: upperChar_def specialUpper_None)

lemma upperChar_not_Space: "\<not> isSpace c \<Longrightarrow> list_all (\<lambda>u. \<not> isSpace u) (upperChar c)"
  by (auto simp: upperChar_def isSpace_def split: option.splits dest: specialUpper_SomeD(2))

lemma upperChar_idem: "concat (map upperChar (upperChar c)) = upperChar c"
proof (cases "(97 \<le> c \<and> c \<le> 122) \<or> (224 \<le> c \<and> c \<le> 254 \<and> c \<noteq> 247)")
  case True
  then have "upperChar c = [c - 32]" by (simp add: upperChar_def)
  moreover have "upperChar (c - 32) = [c - 32]"
    using True by (auto simp: upperChar_def specialUpper_None specialUpper_None_range)
  ultimately show ?thesis by simp
next
  case False
  then show ?thesis
    by (cases "map_of specialUpper c") (auto simp: upperChar_def dest: specialUpper_SomeD(3))
qed

lemma toUpperCase_append: "toUpperCase (u @ v) = toUpperCase u @ toUpperCase v"
  by (simp add: toUpperCase_def)

lemma stripSpaces_append: "stripSpaces (u @ v) = stripSpaces u @ stripSpaces v"
  by (simp add: stripSpaces_def)

lemma stripSpaces_none: "list_all (\<lambda>u. \<not> isSpace u) s \<Longrightarrow> stripSpaces s = s"
  by (induction s) (auto simp: stripSpaces_def)

lemma stripSpaces_toUpperCase: "stripSpaces (toUpperCase s) = toUpperCase (stripSpaces s)"
proof (induction s)
  case Nil
  then show ?case by (simp add: stripSpaces_def toUpperCase_def)
next
  case (Cons c s)
  have "toUpperCase (c # s) = upperChar c @ toUpperCase s" by (simp add: toUpperCase_def)
  then have l: "stripSpaces (toUpperCase (c # s)) = stripSpaces (upperChar c) @ toUpperCase (stripSpaces s)"
    by (simp add: stripSpaces_append Cons.IH)
  show ?case
  proof (cases "isSpace c")
    case True
    then show ?thesis unfolding l by (simp add: upperChar_Space stripSpaces_def)
  next
    case False
    then have "stripSpaces (upperChar c) = upperChar c"
      by (intro stripSpaces_none upperChar_not_Space)
    with False show ?thesis unfolding l by (simp add: stripSpaces_def toUpperCase_def)
  qed
qed

lemma stripSpaces_idem: "stripSpaces (stripSpaces s) = stripSpaces s"
  by (simp add: stripSpaces_def)

lemma toUpperCase_idem: "toUpperCase (toUpperCase s) = toUpperCase s"
  by (induction s) (simp_all add: toUpperCase_def upperChar_idem)

lemma cleanPlate_idem: "cleanPlate (cleanPlate s) = cleanPlate s"
  by (simp add: cleanPlate_def stripSpaces_toUpperCase stripSpaces_idem toUpperCase_idem)

lemma isValid_cleanPlate: "isValidUKLicensePlate (cleanPlate s) = isValidUKLicensePlate s"
  by (simp add: isValidUKLicensePlate_def cleanPlate_idem)


section \<open>Facts about the regular expressions\<close>

text \<open>
  The lengths that \<open>run\<close> lists are those of the prefixes that have the shape of the
  item sequence, so an anchored test holds of the texts that have the shape.
\<close>

lemma le_length_takeWhile:
  "k \<le> length (takeWhile P s) \<longleftrightarrow> k \<le> length s \<and> list_all P (take k s)"
proof (induction s arbitrary: k)
  case Nil
  then show ?case by simp
next
  case (Cons a s)
  then show ?case by (cases k) auto
qed

lemma in_reps_raw:
  "k \<in> set (reps (cl, lo, hi) s) \<longleftrightarrow>
     lo \<le> k \<and> k \<le> length (takeWhile (in_class cl) s)
     \<and> (case hi of None \<Rightarrow> True | Some h \<Rightarrow> k \<le> h)"
proof -
  have "set (rev [lo ..< Suc top]) = {k. lo \<le> k \<and> k \<le> top}" for top
    by auto
  then show ?thesis
    by (cases hi) (simp_all only: reps.simps Let_def option.case, auto)
qed

lemma in_reps:
  "k \<in> set (reps it s) \<longleftrightarrow> k \<le> length s \<and> fits it (take k s)"
proof -
  obtain cl lo hi where it: "it = (cl, lo, hi)" by (cases it)
  have "k \<le> length s \<Longrightarrow> length (take k s) = k" by simp
  then show ?thesis
    unfolding it in_reps_raw le_length_takeWhile fits.simps by (cases hi) auto
qed

lemma in_run_Cons:
  "n \<in> set (run (it # its) s) \<longleftrightarrow>
     (\<exists>k. k \<in> set (reps it s) \<and> k \<le> n \<and> n - k \<in> set (run its (drop k s)))"
proof
  assume "n \<in> set (run (it # its) s)"
  then obtain k m where "k \<in> set (reps it s)" "m \<in> set (run its (drop k s))" "n = k + m"
    by auto
  then show "\<exists>k. k \<in> set (reps it s) \<and> k \<le> n \<and> n - k \<in> set (run its (drop k s))"
    by (intro exI[of _ k]) simp
next
  assume "\<exists>k. k \<in> set (reps it s) \<and> k \<le> n \<and> n - k \<in> set (run its (drop k s))"
  then obtain k where k: "k \<in> set (reps it s)" "k \<le> n" "n - k \<in> set (run its (drop k s))"
    by blast
  then have "n = k + (n - k)" by simp
  with k show "n \<in> set (run (it # its) s)"
    by (simp del: reps.simps) blast
qed

lemma shape_Cons:
  "shape (it # its) w \<longleftrightarrow> (\<exists>k\<le>length w. fits it (take k w) \<and> shape its (drop k w))"
  by (simp add: list_ex_iff Bex_def less_Suc_eq_le del: upt_Suc)

lemma run_iff: "n \<in> set (run its s) \<longleftrightarrow> n \<le> length s \<and> shape its (take n s)"
proof (induction its arbitrary: n s)
  case Nil
  then show ?case by auto
next
  case (Cons it its)
  have "n \<in> set (run (it # its) s) \<longleftrightarrow>
     (\<exists>k. k \<le> length s \<and> fits it (take k s) \<and> k \<le> n \<and> n - k \<le> length s - k
        \<and> shape its (take (n - k) (drop k s)))"
    unfolding in_run_Cons in_reps Cons.IH by auto
  also have "\<dots> \<longleftrightarrow> n \<le> length s \<and>
     (\<exists>k\<le>n. fits it (take k (take n s)) \<and> shape its (drop k (take n s)))"
  proof (intro iffI; elim exE conjE)
    fix k
    assume a: "k \<le> length s" "fits it (take k s)" "k \<le> n" "n - k \<le> length s - k"
      "shape its (take (n - k) (drop k s))"
    then have "n \<le> length s" by arith
    moreover have "take k (take n s) = take k s" using a(3) by (simp add: min_def)
    moreover have "drop k (take n s) = take (n - k) (drop k s)" by (simp add: drop_take)
    ultimately show "n \<le> length s \<and>
       (\<exists>k\<le>n. fits it (take k (take n s)) \<and> shape its (drop k (take n s)))"
      using a by auto
  next
    fix k
    assume a: "n \<le> length s" "k \<le> n" "fits it (take k (take n s))"
      "shape its (drop k (take n s))"
    have "take k (take n s) = take k s" using a(2) by (simp add: min_def)
    moreover have "drop k (take n s) = take (n - k) (drop k s)" by (simp add: drop_take)
    ultimately show "\<exists>k. k \<le> length s \<and> fits it (take k s) \<and> k \<le> n
       \<and> n - k \<le> length s - k \<and> shape its (take (n - k) (drop k s))"
      using a by (intro exI[of _ k]) auto
  qed
  also have "\<dots> \<longleftrightarrow> n \<le> length s \<and> shape (it # its) (take n s)"
    unfolding shape_Cons by (auto simp: min_def)
  finally show ?case .
qed

lemma test_anchored_iff: "test_anchored its s \<longleftrightarrow> shape its s"
  by (simp add: test_anchored_def run_iff)

lemma shape_Cons_append:
  "shape (it # its) w \<longleftrightarrow> (\<exists>u v. w = u @ v \<and> fits it u \<and> shape its v)"
proof
  assume "shape (it # its) w"
  then obtain k where "k \<le> length w" "fits it (take k w)" "shape its (drop k w)"
    unfolding shape_Cons by blast
  then show "\<exists>u v. w = u @ v \<and> fits it u \<and> shape its v"
    by (metis append_take_drop_id)
next
  assume "\<exists>u v. w = u @ v \<and> fits it u \<and> shape its v"
  then obtain u v where "w = u @ v" "fits it u" "shape its v" by blast
  then show "shape (it # its) w"
    unfolding shape_Cons by (intro exI[of _ "length u"]) simp
qed

lemma cleanPlate_append: "cleanPlate (u @ v) = cleanPlate u @ cleanPlate v"
  by (simp add: cleanPlate_def stripSpaces_def toUpperCase_def)

lemma cleanPlate_Upper: "list_all (in_class Upper) u \<Longrightarrow> cleanPlate u = u"
  by (induction u)
     (auto simp: cleanPlate_def stripSpaces_def toUpperCase_def isSpace_def upperChar_fix)

lemma cleanPlate_Digit: "list_all (in_class Digit) u \<Longrightarrow> cleanPlate u = u"
  by (induction u)
     (auto simp: cleanPlate_def stripSpaces_def toUpperCase_def isSpace_def upperChar_fix)

lemma cleanPlate_Space: "list_all (in_class Space) u \<Longrightarrow> cleanPlate u = []"
  by (induction u) (auto simp: cleanPlate_def stripSpaces_def toUpperCase_def isSpace_def)

lemma shape_fullTextRegex_clean:
  assumes "shape fullTextRegex m"
  shows "shape currentFormat (cleanPlate m)" and "length (cleanPlate m) = 7"
proof -
  from assms obtain a b sp c where m: "m = a @ b @ sp @ c"
    and a: "length a = 2" "list_all (in_class Upper) a"
    and b: "length b = 2" "list_all (in_class Digit) b"
    and sp: "list_all (in_class Space) sp"
    and c: "length c = 3" "list_all (in_class Upper) c"
    unfolding fullTextRegex_def shape_Cons_append by auto
  have cm: "cleanPlate m = a @ b @ c"
    by (simp add: m cleanPlate_append cleanPlate_Upper cleanPlate_Digit cleanPlate_Space a b sp c)
  have "shape [(Upper, 3, Some 3)] c"
    unfolding shape_Cons_append using c by auto
  then have "shape [(Digit, 2, Some 2), (Upper, 3, Some 3)] (b @ c)"
    unfolding shape_Cons_append[of "(Digit, 2, Some 2)"] using b by (intro exI[of _ b] exI[of _ c]) simp
  then have "shape [(Upper, 2, Some 2), (Digit, 2, Some 2), (Upper, 3, Some 3)] (a @ b @ c)"
    unfolding shape_Cons_append[of "(Upper, 2, Some 2)"] using a by (intro exI[of _ a] exI[of _ "b @ c"]) simp
  then show "shape currentFormat (cleanPlate m)" by (simp add: cm currentFormat_def)
  show "length (cleanPlate m) = 7" by (simp add: cm a b c)
qed

lemma isValid_iff:
  "isValidUKLicensePlate text \<longleftrightarrow> list_ex (\<lambda>p. shape p (cleanPlate text)) patterns"
  by (auto simp: isValidUKLicensePlate_def matchesSomePattern_def Let_def test_anchored_iff
      patterns_def)

lemma shape_currentFormat_valid: "shape currentFormat (cleanPlate text) \<Longrightarrow> isValidUKLicensePlate text"
  by (simp add: isValid_iff patterns_def)

lemma matchGlobal_sound:
  "m \<in> set (matchGlobal its s) \<Longrightarrow>
     \<exists>i n. i \<le> length s \<and> n \<in> set (run its (drop i s)) \<and> m = take n (drop i s)"
proof (induction its s rule: matchGlobal.induct)
  case (1 its)
  then show ?case by (cases "run its []") (auto split: list.splits)
next
  case (2 its c cs)
  show ?case
  proof (cases "run its (c # cs)")
    case Nil
    with 2 obtain i n where "i \<le> length cs" "n \<in> set (run its (drop i cs))" "m = take n (drop i cs)"
      by auto
    then show ?thesis by - (rule exI[of _ "Suc i"], rule exI[of _ n], simp)
  next
    case (Cons n ns)
    then have nrun: "n \<in> set (run its (c # cs))" by simp
    then have nle: "n \<le> length (c # cs)" unfolding run_iff by simp
    show ?thesis
    proof (cases "m = take n (c # cs)")
      case True
      then show ?thesis using nrun by - (rule exI[of _ 0], rule exI[of _ n], simp)
    next
      case False
      show ?thesis
      proof (cases "n = 0")
        case True
        with False Cons 2 obtain i k where "i \<le> length cs" "k \<in> set (run its (drop i cs))" "m = take k (drop i cs)"
          by auto
        then show ?thesis by - (rule exI[of _ "Suc i"], rule exI[of _ k], simp)
      next
        case n0: False
        with False Cons 2 obtain i k where ik: "i \<le> length (drop n (c # cs))"
          "k \<in> set (run its (drop i (drop n (c # cs))))" "m = take k (drop i (drop n (c # cs)))"
          by auto
        have "i + n \<le> length (c # cs)" using ik(1) nle by simp
        moreover have "drop i (drop n (c # cs)) = drop (i + n) (c # cs)" by (simp add: add.commute)
        ultimately show ?thesis using ik(2,3)
          by - (rule exI[of _ "i + n"], rule exI[of _ k], simp)
      qed
    qed
  qed
qed

lemma matchGlobal_complete:
  "i \<le> length s \<Longrightarrow> run its (drop i s) \<noteq> [] \<Longrightarrow> matchGlobal its s \<noteq> []"
proof (induction its s arbitrary: i rule: matchGlobal.induct)
  case (1 its)
  then show ?case by (auto split: list.splits)
next
  case (2 its c cs)
  show ?case
  proof (cases "run its (c # cs)")
    case Nil
    with "2.prems" have "i \<noteq> 0" by (cases i) auto
    then obtain j where j: "i = Suc j" by (cases i) auto
    with "2.prems" have "j \<le> length cs" "run its (drop j cs) \<noteq> []" by auto
    then have "matchGlobal its cs \<noteq> []" by (rule "2.IH"(1)[OF Nil])
    then show ?thesis using Nil by simp
  next
    case (Cons n ns)
    then show ?thesis by simp
  qed
qed


section \<open>Facts about deduplication and the four methods\<close>

lemma dedupe_snoc:
  "dedupe (xs @ [x]) = (if x \<in> set (dedupe xs) then dedupe xs else dedupe xs @ [x])"
  by (simp add: dedupe_def)

lemma dedupe_Nil: "dedupe [] = []"
  by (simp add: dedupe_def)

lemma set_dedupe: "set (dedupe xs) = set xs"
  by (induction xs rule: rev_induct) (auto simp: dedupe_snoc dedupe_Nil)

lemma distinct_dedupe: "distinct (dedupe xs)"
  by (induction xs rule: rev_induct) (auto simp: dedupe_snoc dedupe_Nil)

lemma dedupe_distinct: "distinct xs \<Longrightarrow> dedupe xs = xs"
  by (induction xs rule: rev_induct) (auto simp: dedupe_snoc dedupe_Nil set_dedupe)

lemma dedupe_append:
  "dedupe (xs @ ys) = dedupe xs @ filter (\<lambda>y. y \<notin> set xs) (dedupe ys)"
proof (induction ys rule: rev_induct)
  case Nil
  then show ?case by (simp add: dedupe_Nil)
next
  case (snoc y ys)
  have "dedupe (xs @ ys @ [y]) = dedupe ((xs @ ys) @ [y])" by simp
  also have "\<dots> = (if y \<in> set xs \<union> set ys then dedupe (xs @ ys) else dedupe (xs @ ys) @ [y])"
    unfolding dedupe_snoc by (simp add: set_dedupe)
  finally show ?case
    by (auto simp: snoc.IH dedupe_snoc set_dedupe)
qed


lemma valid_clean: "isValidUKLicensePlate t \<Longrightarrow>
   isValidUKLicensePlate (cleanPlate t) \<and> cleanPlate (cleanPlate t) = cleanPlate t"
  by (simp add: isValid_cleanPlate cleanPlate_idem)

lemma annotationPlates_valid:
  "p \<in> set (annotationPlates anns) \<Longrightarrow> isValidUKLicensePlate p \<and> cleanPlate p = p"
  by (induction anns) (auto simp: Let_def valid_clean split: if_splits)

lemma pairPlates_valid:
  "p \<in> set (pairPlates segs) \<Longrightarrow> isValidUKLicensePlate p \<and> cleanPlate p = p"
  by (induction segs rule: pairPlates.induct) (auto simp: Let_def valid_clean split: if_splits)

lemma triplePlates_valid:
  "p \<in> set (triplePlates segs) \<Longrightarrow> isValidUKLicensePlate p \<and> cleanPlate p = p"
  by (induction segs rule: triplePlates.induct) (auto simp: Let_def valid_clean split: if_splits)

lemma matchGlobal_shape:
  assumes "m \<in> set (matchGlobal its s)"
  shows "\<exists>pre post. s = pre @ m @ post \<and> shape its m"
proof -
  from matchGlobal_sound[OF assms] obtain i n where
    i: "i \<le> length s" and n: "n \<in> set (run its (drop i s))" and m: "m = take n (drop i s)"
    by blast
  from n have "shape its m" unfolding run_iff m by simp
  moreover have "s = take i s @ m @ drop n (drop i s)"
    unfolding m by (simp only: append_take_drop_id)
  ultimately show ?thesis by blast
qed

lemma fullTextPlates_valid:
  assumes "p \<in> set (fullTextPlates t)"
  shows "isValidUKLicensePlate p \<and> cleanPlate p = p"
proof -
  from assms obtain m where m: "m \<in> set (matchGlobal fullTextRegex (cleanFullText t))"
    and p: "p = cleanPlate m"
    by (auto simp: fullTextPlates_def split: if_splits)
  from matchGlobal_shape[OF m] have "shape fullTextRegex m" by blast
  then have "shape currentFormat (cleanPlate m)" by (rule shape_fullTextRegex_clean)
  then have "shape currentFormat (cleanPlate p)" by (simp add: p cleanPlate_idem)
  then show ?thesis by (simp add: shape_currentFormat_valid) (simp add: p cleanPlate_idem)
qed

lemma allPlates_valid:
  "p \<in> set (allPlates t anns) \<Longrightarrow> isValidUKLicensePlate p \<and> cleanPlate p = p"
  unfolding allPlates_def
  using fullTextPlates_valid annotationPlates_valid pairPlates_valid triplePlates_valid
  by (metis set_append Un_iff)

lemma detectedPlates_valid:
  "p \<in> set (detectedPlates anns) \<Longrightarrow> isValidUKLicensePlate p \<and> cleanPlate p = p"
  by (simp add: detectedPlates_def extractLicensePlates_def set_dedupe allPlates_valid)

lemma detectedPlates_Nil: "detectedPlates [] = []"
  by (simp add: detectedPlates_def extractLicensePlates_def allPlates_def fullTextPlates_def
      textSegments_def dedupe_Nil)


section \<open>Facts about the plate shapes\<close>

lemma shape_currentFormat_intro:
  assumes "length a = 2" "list_all (in_class Upper) a" "length b = 2"
    "list_all (in_class Digit) b" "length c = 3" "list_all (in_class Upper) c"
  shows "shape currentFormat (a @ b @ c)"
proof -
  have "shape [(Upper, 3, Some 3)] c"
    unfolding shape_Cons_append using assms by auto
  then have "shape [(Digit, 2, Some 2), (Upper, 3, Some 3)] (b @ c)"
    unfolding shape_Cons_append[of "(Digit, 2, Some 2)"] using assms
    by - (rule exI[of _ b], rule exI[of _ c], simp)
  then show ?thesis
    unfolding currentFormat_def shape_Cons_append[of "(Upper, 2, Some 2)"] using assms
    by - (rule exI[of _ a], rule exI[of _ "b @ c"], simp)
qed

lemma shape_min_length:
  "shape its w \<Longrightarrow> sum_list (map (\<lambda>it. fst (snd it)) its) \<le> length w"
proof (induction its arbitrary: w)
  case Nil
  then show ?case by simp
next
  case (Cons it its)
  obtain cl lo hi where it: "it = (cl, lo, hi)" by (cases it)
  from Cons.prems obtain u v where "w = u @ v" "fits it u" "shape its v"
    unfolding shape_Cons_append by blast
  with Cons.IH[of v] show ?case by (simp add: it)
qed

lemma shape_Upper_head:
  assumes "shape ((Upper, lo, hi) # its) w" "1 \<le> lo"
  shows "w \<noteq> [] \<and> in_class Upper (hd w)"
proof -
  from assms(1) obtain u v where w: "w = u @ v" and u: "fits (Upper, lo, hi) u"
    unfolding shape_Cons_append by blast
  with assms(2) have "u \<noteq> []" "list_all (in_class Upper) u" by auto
  then show ?thesis unfolding w by (cases u) auto
qed

lemma pattern_min_length:
  "list_ex (\<lambda>p. shape p w) patterns \<Longrightarrow> 2 \<le> length w"
  by (auto simp: patterns_def currentFormat_def prefixFormat_def suffixFormat_def
      datelessFormat_def partialFirst_def partialSecond_def simp del: shape.simps
      dest!: shape_min_length)

lemma pattern_Upper_head:
  "list_ex (\<lambda>p. shape p w) patterns \<Longrightarrow> w \<noteq> [] \<and> in_class Upper (hd w)"
  by (auto simp: patterns_def currentFormat_def prefixFormat_def suffixFormat_def
      datelessFormat_def partialFirst_def partialSecond_def simp del: shape.simps in_class.simps
      dest!: shape_Upper_head)

lemma cleanPlate_toUpperCase: "cleanPlate (toUpperCase s) = cleanPlate s"
  by (simp add: cleanPlate_def stripSpaces_toUpperCase toUpperCase_idem)

lemma cleanPlate_stripSpaces: "cleanPlate (stripSpaces s) = cleanPlate s"
  by (simp add: cleanPlate_def stripSpaces_idem)

lemma isValid_matches:
  "isValidUKLicensePlate t = matchesSomePattern (toUpperCase (stripSpaces t))"
  by (auto simp: isValidUKLicensePlate_def Let_def cleanPlate_def matchesSomePattern_def patterns_def)


section \<open>The plate matcher: claims C6 and C7\<close>

text \<open>
  C6 (as amended). The matcher normalises its input itself: its result is the structural
  test applied to the input with all white space removed and upper-cased, and it does not
  change when the input is upper-cased or stripped of white space beforehand.
\<close>

theorem matcher_normalises:
  "isValidUKLicensePlate t = matchesSomePattern (toUpperCase (stripSpaces t))
   \<and> isValidUKLicensePlate (toUpperCase t) = isValidUKLicensePlate t
   \<and> isValidUKLicensePlate (stripSpaces t) = isValidUKLicensePlate t"
proof (intro conjI)
  show "isValidUKLicensePlate t = matchesSomePattern (toUpperCase (stripSpaces t))"
    by (rule isValid_matches)
  show "isValidUKLicensePlate (toUpperCase t) = isValidUKLicensePlate t"
    by (simp add: isValid_iff cleanPlate_toUpperCase)
  show "isValidUKLicensePlate (stripSpaces t) = isValidUKLicensePlate t"
    by (simp add: isValid_iff cleanPlate_stripSpaces)
qed

text \<open>
  C6 as stated fails: the lower-case text \<open>ab12cde\<close> and the text \<open>AB12 CDE\<close> with a
  space are accepted by the matcher, although the structural test rejects both as they
  are given.
\<close>

theorem matcher_normalises_counterexample:
  "isValidUKLicensePlate (str ''ab12cde'') \<and> isValidUKLicensePlate (str ''AB12 CDE'')
   \<and> \<not> matchesSomePattern (str ''ab12cde'') \<and> \<not> matchesSomePattern (str ''AB12 CDE'')"
  by code_simp


lemma matchesSomePattern_iff:
  "matchesSomePattern w \<longleftrightarrow> list_ex (\<lambda>p. shape p w) patterns"
  by (simp add: matchesSomePattern_def test_anchored_iff)

lemma isValid_clean_matches:
  "isValidUKLicensePlate t = matchesSomePattern (cleanPlate t)"
  by (simp add: isValid_iff matchesSomePattern_iff)

lemma short_no_match: "length w < 2 \<Longrightarrow> \<not> matchesSomePattern w"
  unfolding matchesSomePattern_iff using pattern_min_length[of w] by auto

lemma specialUpper_matches:
  "list_all (\<lambda>(k, us). k = 64259 \<or> k = 64260 \<or> \<not> matchesSomePattern us) specialUpper"
  by code_simp

lemma upperChar_no_match:
  assumes "c \<noteq> 64259" "c \<noteq> 64260"
  shows "\<not> matchesSomePattern (upperChar c)"
proof (cases "(97 \<le> c \<and> c \<le> 122) \<or> (224 \<le> c \<and> c \<le> 254 \<and> c \<noteq> 247)")
  case True
  then have "upperChar c = [c - 32]" by (simp add: upperChar_def)
  then show ?thesis by (simp add: short_no_match)
next
  case False
  show ?thesis
  proof (cases "map_of specialUpper c")
    case None
    with False have "upperChar c = [c]" unfolding upperChar_def by auto
    then show ?thesis by (simp add: short_no_match)
  next
    case (Some us)
    with False have u: "upperChar c = us" unfolding upperChar_def by auto
    from map_of_SomeD[OF Some] specialUpper_matches assms
    have "\<not> matchesSomePattern us" by (auto simp: list_all_iff)
    then show ?thesis by (simp add: u)
  qed
qed

lemma cleanPlate_single:
  "cleanPlate [c] = (if isSpace c then [] else upperChar c)"
  by (simp add: cleanPlate_def stripSpaces_def toUpperCase_def)

text \<open>
  C7 (as amended). A text of exactly two upper-case letters, two digits and three
  upper-case letters is accepted; a text shorter than two code units is rejected, unless
  it is the single ligature U+FB03 or U+FB04; a text of digits only is rejected.
\<close>

theorem isValidPlate_shapes:
  "(length s = 7 \<and> list_all (in_class Upper) (take 2 s)
      \<and> list_all (in_class Digit) (take 2 (drop 2 s)) \<and> list_all (in_class Upper) (drop 4 s)
      \<longrightarrow> isValidUKLicensePlate s)
   \<and> (length t < 2 \<and> t \<noteq> [64259] \<and> t \<noteq> [64260] \<longrightarrow> \<not> isValidUKLicensePlate t)
   \<and> (list_all (in_class Digit) d \<longrightarrow> \<not> isValidUKLicensePlate d)"
proof (intro conjI impI)
  assume a: "length s = 7 \<and> list_all (in_class Upper) (take 2 s)
      \<and> list_all (in_class Digit) (take 2 (drop 2 s)) \<and> list_all (in_class Upper) (drop 4 s)"
  have split: "s = take 2 s @ take 2 (drop 2 s) @ drop 4 s"
    by (metis append_take_drop_id drop_drop numeral_Bit0)
  have "shape currentFormat (take 2 s @ take 2 (drop 2 s) @ drop 4 s)"
    using a by (intro shape_currentFormat_intro) auto
  moreover have "cleanPlate s = take 2 s @ take 2 (drop 2 s) @ drop 4 s"
    using a by (subst split) (simp only: cleanPlate_append cleanPlate_Upper cleanPlate_Digit)
  ultimately show "isValidUKLicensePlate s"
    by (simp add: shape_currentFormat_valid)
next
  assume h: "length t < 2 \<and> t \<noteq> [64259] \<and> t \<noteq> [64260]"
  show "\<not> isValidUKLicensePlate t"
  proof (cases t)
    case Nil
    then show ?thesis
      by (simp add: isValid_clean_matches cleanPlate_def stripSpaces_def toUpperCase_def
          short_no_match)
  next
    case (Cons c cs)
    with h have t: "t = [c]" and c: "c \<noteq> 64259" "c \<noteq> 64260" by auto
    show ?thesis
      unfolding isValid_clean_matches t cleanPlate_single
      using upperChar_no_match[OF c] by (simp add: short_no_match)
  qed
next
  assume d: "list_all (in_class Digit) d"
  then have "cleanPlate d = d" by (rule cleanPlate_Digit)
  moreover have "\<not> in_class Upper (hd d)" if "d \<noteq> []"
    using d that by (cases d) auto
  ultimately show "\<not> isValidUKLicensePlate d"
    unfolding isValid_iff using pattern_Upper_head[of d] by auto
qed

text \<open>
  The three parts of the amended C7 at \<open>AB12CDE\<close>, at the single code unit U+00DF (whose
  upper-case form is \<open>SS\<close>) and at \<open>2024\<close>.
\<close>

theorem isValidPlate_shapes_witness:
  "isValidUKLicensePlate (str ''AB12CDE'') \<and> \<not> isValidUKLicensePlate [223]
   \<and> \<not> isValidUKLicensePlate (str ''2024'')"
  using isValidPlate_shapes[of "str ''AB12CDE''" "[223]" "str ''2024''"]
  by (simp add: str_def)

text \<open>
  C7 as stated fails: the text that is the single code unit U+FB03 has length 1, its
  upper-case form is \<open>FFI\<close>, three letters, and the matcher accepts it; it accepts the
  single code unit U+FB04 (\<open>FFL\<close>) as well.
\<close>

theorem isValidPlate_short_counterexample:
  "length [64259 :: int] < 2 \<and> toUpperCase [64259] = str ''FFI''
   \<and> isValidUKLicensePlate [64259] \<and> isValidUKLicensePlate [64260]"
  by code_simp


section \<open>The positions of the matches of a search\<close>

text \<open>
  \<open>matchSpans\<close> lists the matches that \<open>matchGlobal\<close> returns, each with its position:
  a reported match is the first one that the matcher finds at its position, and a
  position at which a match starts is either reported or lies inside an earlier reported
  match.
\<close>

lemma matchSpans_ge: "(i, k) \<in> set (matchSpans its off s) \<Longrightarrow> off \<le> i"
proof (induction its off s rule: matchSpans.induct)
  case (1 its off)
  then show ?case by (auto split: list.splits)
next
  case (2 its off c cs)
  show ?case
  proof (cases "run its (c # cs)")
    case Nil
    with 2 have "Suc off \<le> i" by auto
    then show ?thesis by simp
  next
    case (Cons n ns)
    show ?thesis
    proof (cases "n = 0")
      case True
      with Cons 2 have "i = off \<or> Suc off \<le> i" by auto
      then show ?thesis by auto
    next
      case False
      with Cons 2 have "i = off \<or> off + n \<le> i" by auto
      then show ?thesis by auto
    qed
  qed
qed

lemma matchGlobal_spans:
  "matchGlobal its s = map (\<lambda>(i, k). take k (drop (i - off) s)) (matchSpans its off s)"
proof (induction its off s rule: matchSpans.induct)
  case (1 its off)
  then show ?case by (auto split: list.splits)
next
  case (2 its off c cs)
  show ?case
  proof (cases "run its (c # cs)")
    case Nil
    have "map (\<lambda>(i, k). take k (drop (i - Suc off) cs)) (matchSpans its (Suc off) cs)
        = map (\<lambda>(i, k). take k (drop (i - off) (c # cs))) (matchSpans its (Suc off) cs)"
    proof (rule map_cong[OF refl])
      fix x assume x: "x \<in> set (matchSpans its (Suc off) cs)"
      obtain i k where ik: "x = (i, k)" by (cases x)
      with x have "Suc off \<le> i" using matchSpans_ge by auto
      then obtain j where "i - off = Suc j" "i - Suc off = j" by (cases "i - off") auto
      then show "(case x of (i, k) \<Rightarrow> take k (drop (i - Suc off) cs))
          = (case x of (i, k) \<Rightarrow> take k (drop (i - off) (c # cs)))"
        by (simp add: ik)
    qed
    with Nil "2.IH"(1)[OF Nil] show ?thesis by simp
  next
    case (Cons n ns)
    show ?thesis
    proof (cases "n = 0")
      case True
      have "map (\<lambda>(i, k). take k (drop (i - Suc off) cs)) (matchSpans its (Suc off) cs)
          = map (\<lambda>(i, k). take k (drop (i - off) (c # cs))) (matchSpans its (Suc off) cs)"
      proof (rule map_cong[OF refl])
        fix x assume x: "x \<in> set (matchSpans its (Suc off) cs)"
        obtain i k where ik: "x = (i, k)" by (cases x)
        with x have "Suc off \<le> i" using matchSpans_ge by auto
        then obtain j where "i - off = Suc j" "i - Suc off = j" by (cases "i - off") auto
        then show "(case x of (i, k) \<Rightarrow> take k (drop (i - Suc off) cs))
            = (case x of (i, k) \<Rightarrow> take k (drop (i - off) (c # cs)))"
          by (simp add: ik)
      qed
      with Cons True "2.IH"(2)[OF Cons True] show ?thesis by simp
    next
      case False
      have "map (\<lambda>(i, k). take k (drop (i - (off + n)) (drop n (c # cs))))
              (matchSpans its (off + n) (drop n (c # cs)))
          = map (\<lambda>(i, k). take k (drop (i - off) (c # cs)))
              (matchSpans its (off + n) (drop n (c # cs)))"
      proof (rule map_cong[OF refl])
        fix x assume x: "x \<in> set (matchSpans its (off + n) (drop n (c # cs)))"
        obtain i k where ik: "x = (i, k)" by (cases x)
        with x have "off + n \<le> i" using matchSpans_ge by auto
        then have "i - (off + n) + n = i - off" by arith
        then have "drop (i - (off + n)) (drop n (c # cs)) = drop (i - off) (c # cs)"
          by (simp only: drop_drop)
        then show "(case x of (i, k) \<Rightarrow> take k (drop (i - (off + n)) (drop n (c # cs))))
            = (case x of (i, k) \<Rightarrow> take k (drop (i - off) (c # cs)))"
          by (simp add: ik)
      qed
      with Cons False "2.IH"(3)[OF Cons False] show ?thesis by simp
    qed
  qed
qed

lemma matchSpans_first:
  "(i, k) \<in> set (matchSpans its off s) \<Longrightarrow> \<exists>ns. run its (drop (i - off) s) = k # ns"
proof (induction its off s rule: matchSpans.induct)
  case (1 its off)
  show ?case
  proof (cases "run its []")
    case Nil
    with 1 show ?thesis by simp
  next
    case (Cons n ns)
    with 1 have ik: "i = off" "k = 0" by auto
    from Cons have "n \<in> set (run its [])" by simp
    then have "n = 0" unfolding run_iff by simp
    with Cons ik show ?thesis by simp
  qed
next
  case (2 its off c cs)
  show ?case
  proof (cases "run its (c # cs)")
    case Nil
    with 2 have m: "(i, k) \<in> set (matchSpans its (Suc off) cs)"
      and ih: "\<exists>ns. run its (drop (i - Suc off) cs) = k # ns" by auto
    from matchSpans_ge[OF m] obtain j where "i - off = Suc j" "i - Suc off = j"
      by (cases "i - off") auto
    with ih show ?thesis by simp
  next
    case (Cons n ns)
    show ?thesis
    proof (cases "(i, k) = (off, n)")
      case True
      then show ?thesis using Cons by simp
    next
      case ne: False
      show ?thesis
      proof (cases "n = 0")
        case True
        with ne Cons 2 have m: "(i, k) \<in> set (matchSpans its (Suc off) cs)"
          and ih: "\<exists>ns. run its (drop (i - Suc off) cs) = k # ns" by auto
        from matchSpans_ge[OF m] obtain j where "i - off = Suc j" "i - Suc off = j"
          by (cases "i - off") auto
        with ih show ?thesis by simp
      next
        case False
        with ne Cons 2 have m: "(i, k) \<in> set (matchSpans its (off + n) (drop n (c # cs)))"
          and ih: "\<exists>ns. run its (drop (i - (off + n)) (drop n (c # cs))) = k # ns" by auto
        from matchSpans_ge[OF m] have "i - (off + n) + n = i - off" by arith
        then have "drop (i - (off + n)) (drop n (c # cs)) = drop (i - off) (c # cs)"
          by (simp only: drop_drop)
        with ih show ?thesis by simp
      qed
    qed
  qed
qed

lemma matchSpans_cover:
  "i \<le> length s \<Longrightarrow> run its (drop i s) \<noteq> [] \<Longrightarrow>
     (\<exists>k. (off + i, k) \<in> set (matchSpans its off s))
     \<or> (\<exists>(j, k) \<in> set (matchSpans its off s). j < off + i \<and> off + i < j + k)"
proof (induction its off s arbitrary: i rule: matchSpans.induct)
  case (1 its off)
  then show ?case by (cases "run its []") auto
next
  case (2 its off c cs)
  show ?case
  proof (cases "run its (c # cs)")
    case Nil
    with "2.prems" obtain i' where i: "i = Suc i'" by (cases i) auto
    with "2.prems" have "i' \<le> length cs" "run its (drop i' cs) \<noteq> []" by auto
    from "2.IH"(1)[OF Nil this] show ?thesis using Nil by (simp add: i)
  next
    case (Cons n ns)
    show ?thesis
    proof (cases i)
      case 0
      then show ?thesis using Cons by auto
    next
      case (Suc i')
      show ?thesis
      proof (cases "n = 0")
        case True
        from "2.prems" Suc have "i' \<le> length cs" "run its (drop i' cs) \<noteq> []" by auto
        from "2.IH"(2)[OF Cons True this] show ?thesis using Cons True by (auto simp: Suc)
      next
        case False
        show ?thesis
        proof (cases "i < n")
          case True
          then have "off < off + i \<and> off + i < off + n" using Suc by simp
          then show ?thesis using Cons False by auto
        next
          case ge: False
          then have e: "drop (i - n) (drop n (c # cs)) = drop i (c # cs)" by simp
          have "i - n \<le> length (drop n (c # cs))" using "2.prems"(1) by simp
          moreover have "run its (drop (i - n) (drop n (c # cs))) \<noteq> []"
            unfolding e using "2.prems"(2) .
          ultimately have "(\<exists>k. (off + n + (i - n), k) \<in> set (matchSpans its (off + n) (drop n (c # cs))))
             \<or> (\<exists>(j, k) \<in> set (matchSpans its (off + n) (drop n (c # cs))).
                   j < off + n + (i - n) \<and> off + n + (i - n) < j + k)"
            by (rule "2.IH"(3)[OF Cons False])
          moreover have "off + n + (i - n) = off + i" using ge by simp
          ultimately show ?thesis using Cons False by auto
        qed
      qed
    qed
  qed
qed

lemma fullTextRegex_decompose:
  "shape fullTextRegex m \<longleftrightarrow>
     (\<exists>a b sp c. m = a @ b @ sp @ c
        \<and> length a = 2 \<and> list_all (in_class Upper) a
        \<and> length b = 2 \<and> list_all (in_class Digit) b
        \<and> list_all (in_class Space) sp
        \<and> length c = 3 \<and> list_all (in_class Upper) c)"
proof
  assume "shape fullTextRegex m"
  then obtain a b sp c where "m = a @ b @ sp @ c"
    "length a = 2" "list_all (in_class Upper) a"
    "length b = 2" "list_all (in_class Digit) b"
    "list_all (in_class Space) sp"
    "length c = 3" "list_all (in_class Upper) c"
    unfolding fullTextRegex_def shape_Cons_append by auto
  then show "\<exists>a b sp c. m = a @ b @ sp @ c
        \<and> length a = 2 \<and> list_all (in_class Upper) a
        \<and> length b = 2 \<and> list_all (in_class Digit) b
        \<and> list_all (in_class Space) sp
        \<and> length c = 3 \<and> list_all (in_class Upper) c"
    by blast
next
  assume "\<exists>a b sp c. m = a @ b @ sp @ c
        \<and> length a = 2 \<and> list_all (in_class Upper) a
        \<and> length b = 2 \<and> list_all (in_class Digit) b
        \<and> list_all (in_class Space) sp
        \<and> length c = 3 \<and> list_all (in_class Upper) c"
  then obtain a b sp c where m: "m = a @ b @ sp @ c"
    and h: "length a = 2" "list_all (in_class Upper) a"
    "length b = 2" "list_all (in_class Digit) b"
    "list_all (in_class Space) sp"
    "length c = 3" "list_all (in_class Upper) c"
    by blast
  have "shape [(Upper, 3, Some 3)] c"
    unfolding shape_Cons_append using h by auto
  then have "shape [(Space, 0, None), (Upper, 3, Some 3)] (sp @ c)"
    unfolding shape_Cons_append[of "(Space, 0, None)"] using h
    by - (rule exI[of _ sp], rule exI[of _ c], simp)
  then have "shape [(Digit, 2, Some 2), (Space, 0, None), (Upper, 3, Some 3)] (b @ sp @ c)"
    unfolding shape_Cons_append[of "(Digit, 2, Some 2)"] using h
    by - (rule exI[of _ b], rule exI[of _ "sp @ c"], simp)
  then show "shape fullTextRegex m"
    unfolding fullTextRegex_def m shape_Cons_append[of "(Upper, 2, Some 2)"] using h
    by - (rule exI[of _ a], rule exI[of _ "b @ sp @ c"], simp)
qed

lemma fullTextRegex_length:
  assumes "n \<in> set (run fullTextRegex x)"
  shows "n = 7 + length (takeWhile (in_class Space) (drop 4 x))"
proof -
  from assms have n: "n \<le> length x" and "shape fullTextRegex (take n x)"
    unfolding run_iff by auto
  then obtain a b sp c where m: "take n x = a @ b @ sp @ c"
    and a: "length a = 2" and b: "length b = 2"
    and sp: "list_all (in_class Space) sp"
    and c: "length c = 3" "list_all (in_class Upper) c"
    unfolding fullTextRegex_decompose by blast
  have x: "x = a @ b @ sp @ c @ drop n x"
    using append_take_drop_id[of n x] unfolding m by simp
  have "drop 4 x = sp @ c @ drop n x"
    by (subst x) (simp add: a b)
  moreover obtain c0 cs where c0: "c = c0 # cs" using c(1) by (cases c) auto
  moreover have "\<not> in_class Space c0" using c(2) unfolding c0 by auto
  ultimately have "takeWhile (in_class Space) (drop 4 x) = sp"
    using sp by (simp add: takeWhile_append2 list_all_iff)
  moreover have "n = length (take n x)" using n by simp
  ultimately show ?thesis unfolding m by (simp add: a b c)
qed

lemma fullTextPlates_spans:
  "fullTextPlates v =
     map (\<lambda>(j, n). cleanPlate (take n (drop j (cleanFullText v))))
       (matchSpans fullTextRegex 0 (cleanFullText v))"
proof (cases "v = []")
  case True
  have "cleanFullText [] = []"
    by (simp add: cleanFullText_def replaceNewlines_def trim_def)
  moreover have "run fullTextRegex [] = []"
    by (simp add: fullTextRegex_def)
  ultimately show ?thesis using True by (simp add: fullTextPlates_def)
next
  case False
  then show ?thesis
    by (simp add: fullTextPlates_def matchGlobal_spans[of _ _ 0] o_def split_def)
qed


section \<open>Candidate extraction: claims C1, C3, C4, C5 and C8\<close>

lemma upload_licensePlates:
  "anns \<noteq> [] \<Longrightarrow> licensePlates (fst (upload registry anns)) = Some (detectedPlates anns)"
  by (auto simp: upload_def Let_def detectedPlates_def split: prod.splits)

lemma upload_licensePlates_Nil: "licensePlates (fst (upload registry [])) = None"
  by (simp add: upload_def)

lemma valid_matchesSomePattern:
  "isValidUKLicensePlate p \<Longrightarrow> cleanPlate p = p \<Longrightarrow> matchesSomePattern p"
  using isValid_matches[of p] by (simp add: cleanPlate_def)

text \<open>
  C1 (as amended). Every entry of the list \<^verbatim>\<open>licensePlates\<close> of a response is a
  normalised text (no white space, upper-cased) that passes the structural test of the
  matcher as it is, and the table of the matcher holds the two partial shapes beside the
  complete formats. A text of three bare letters, which matches a partial shape only, can
  therefore be an entry of the list.
\<close>

theorem licensePlates_satisfy_matcher:
  assumes "licensePlates (fst (upload registry anns)) = Some ps" and "p \<in> set ps"
  shows "matchesSomePattern p \<and> toUpperCase (stripSpaces p) = p"
proof -
  have "anns \<noteq> []" using assms(1) by (auto simp: upload_licensePlates_Nil)
  then have "ps = detectedPlates anns" using assms(1) by (simp add: upload_licensePlates)
  with assms(2) have "isValidUKLicensePlate p \<and> cleanPlate p = p"
    by (simp add: detectedPlates_valid)
  then show ?thesis by (auto simp: valid_matchesSomePattern) (simp add: cleanPlate_def)
qed

text \<open>
  The amended C1 at the annotations \<open>wheel\<close>, \<open>CVK\<close>: the response lists \<open>CVK\<close>.
\<close>

theorem licensePlates_satisfy_matcher_witness:
  "licensePlates (fst (upload registryAbsent [ann ''wheel'', ann ''CVK''])) = Some [str ''CVK'']
   \<and> str ''CVK'' \<in> set [str ''CVK'']
   \<and> matchesSomePattern (str ''CVK'') \<and> toUpperCase (stripSpaces (str ''CVK'')) = str ''CVK''"
proof -
  have h: "licensePlates (fst (upload registryAbsent [ann ''wheel'', ann ''CVK''])) = Some [str ''CVK'']"
    by code_simp
  have m: "str ''CVK'' \<in> set [str ''CVK'']" by simp
  show ?thesis using h m licensePlates_satisfy_matcher[OF h m] by simp
qed

text \<open>
  C1 as stated fails: for the single annotation \<open>CVK\<close> the response lists \<open>CVK\<close>,
  which has the shape of three bare letters and none of the four complete formats.
\<close>

theorem partial_shape_surfaced_counterexample:
  "licensePlates (fst (upload registryTimeout [ann ''CVK''])) = Some [str ''CVK'']
   \<and> test_anchored partialSecond (str ''CVK'')
   \<and> \<not> test_anchored currentFormat (str ''CVK'') \<and> \<not> test_anchored prefixFormat (str ''CVK'')
   \<and> \<not> test_anchored suffixFormat (str ''CVK'') \<and> \<not> test_anchored datelessFormat (str ''CVK'')"
  by code_simp

text \<open>
  C3. For the annotations \<open>YF65CVK plate photo\<close>, \<open>YF\<close>, \<open>65\<close>, \<open>CVK\<close> the scan of
  the full text yields \<open>YF65CVK\<close>; the combination of three fragments tests the text
  \<open>YF65 CVK\<close> (the first two joined with no separator, then a space and the third) and
  yields \<open>YF65CVK\<close> as well; the candidate stands twice in the list before the
  duplicates are removed and once in the list afterwards, which is \<open>YF65CVK\<close>, \<open>CVK\<close>,
  \<open>YF65\<close>.
\<close>

theorem yf65cvk_example:
  "fullTextPlates (fullTextOf yfAnnotations) = [str ''YF65CVK'']
   \<and> textSegments yfAnnotations = [str ''YF'', str ''65'', str ''CVK'']
   \<and> str ''YF'' @ str ''65'' @ str '' '' @ str ''CVK'' = str ''YF65 CVK''
   \<and> isValidUKLicensePlate (str ''YF65 CVK'')
   \<and> triplePlates (textSegments yfAnnotations) = [str ''YF65CVK'']
   \<and> count_list (allPlates (fullTextOf yfAnnotations) yfAnnotations) (str ''YF65CVK'') = 2
   \<and> detectedPlates yfAnnotations = [str ''YF65CVK'', str ''CVK'', str ''YF65'']
   \<and> count_list (detectedPlates yfAnnotations) (str ''YF65CVK'') = 1"
  by code_simp



text \<open>
  C5 (as amended). Every candidate of the scan of the full text comes from a substring of
  the cleaned full text made of two upper-case letters, two digits, any run of white
  space and three upper-case letters (no white space between the letters and the digits),
  and is that substring without its white space. The scan finds every such substring that
  does not start inside an earlier match: a substring of that shape either yields a
  candidate or starts after the start and before the end of a match reported earlier.
  The candidates are the reported matches, in order, each without its white space.
\<close>

theorem fullTextPlates_scan:
  "(p \<in> set (fullTextPlates t) \<longrightarrow>
      (\<exists>pre a b sp c post. cleanFullText t = pre @ a @ b @ sp @ c @ post
         \<and> length a = 2 \<and> list_all (in_class Upper) a
         \<and> length b = 2 \<and> list_all (in_class Digit) b
         \<and> list_all (in_class Space) sp
         \<and> length c = 3 \<and> list_all (in_class Upper) c
         \<and> p = a @ b @ c))
   \<and> (cleanFullText u = pre' @ a' @ b' @ sp' @ c' @ post'
         \<and> length a' = 2 \<and> list_all (in_class Upper) a'
         \<and> length b' = 2 \<and> list_all (in_class Digit) b'
         \<and> list_all (in_class Space) sp'
         \<and> length c' = 3 \<and> list_all (in_class Upper) c'
       \<longrightarrow> a' @ b' @ c' \<in> set (fullTextPlates u)
           \<or> (\<exists>(j, n) \<in> set (matchSpans fullTextRegex 0 (cleanFullText u)).
                 j < length pre' \<and> length pre' < j + n))
   \<and> fullTextPlates v =
       map (\<lambda>(j, n). cleanPlate (take n (drop j (cleanFullText v))))
         (matchSpans fullTextRegex 0 (cleanFullText v))"
proof (intro conjI impI)
  assume "p \<in> set (fullTextPlates t)"
  then obtain m where m: "m \<in> set (matchGlobal fullTextRegex (cleanFullText t))"
    and p: "p = cleanPlate m"
    by (auto simp: fullTextPlates_def split: if_splits)
  from matchGlobal_shape[OF m] obtain pre post where
    s: "cleanFullText t = pre @ m @ post" and sh: "shape fullTextRegex m" by blast
  from sh obtain a b sp c where mm: "m = a @ b @ sp @ c"
    and a: "length a = 2" "list_all (in_class Upper) a"
    and b: "length b = 2" "list_all (in_class Digit) b"
    and sp: "list_all (in_class Space) sp"
    and c: "length c = 3" "list_all (in_class Upper) c"
    unfolding fullTextRegex_decompose by blast
  have "p = a @ b @ c"
    by (simp add: p mm cleanPlate_append cleanPlate_Upper cleanPlate_Digit cleanPlate_Space a b sp c)
  moreover have "cleanFullText t = pre @ a @ b @ sp @ c @ post"
    by (simp add: s mm)
  ultimately show "\<exists>pre a b sp c post. cleanFullText t = pre @ a @ b @ sp @ c @ post
         \<and> length a = 2 \<and> list_all (in_class Upper) a
         \<and> length b = 2 \<and> list_all (in_class Digit) b
         \<and> list_all (in_class Space) sp
         \<and> length c = 3 \<and> list_all (in_class Upper) c
         \<and> p = a @ b @ c"
    using a b sp c by blast
next
  assume h: "cleanFullText u = pre' @ a' @ b' @ sp' @ c' @ post'
         \<and> length a' = 2 \<and> list_all (in_class Upper) a'
         \<and> length b' = 2 \<and> list_all (in_class Digit) b'
         \<and> list_all (in_class Space) sp'
         \<and> length c' = 3 \<and> list_all (in_class Upper) c'"
  define m where "m = a' @ b' @ sp' @ c'"
  define x where "x = cleanFullText u"
  define spans where "spans = matchSpans fullTextRegex 0 x"
  have sh: "shape fullTextRegex m"
    unfolding fullTextRegex_decompose m_def using h by blast
  have cm: "cleanPlate m = a' @ b' @ c'"
    using h by (simp add: m_def cleanPlate_append cleanPlate_Upper cleanPlate_Digit
        cleanPlate_Space)
  have s: "x = pre' @ m @ post'" using h by (simp add: m_def x_def)
  have dm: "drop (length pre') x = m @ post'" by (simp add: s)
  have lm: "length m \<in> set (run fullTextRegex (drop (length pre') x))"
    unfolding run_iff dm using sh by simp
  then have ne: "run fullTextRegex (drop (length pre') x) \<noteq> []" by auto
  have le: "length pre' \<le> length x" by (simp add: s)
  from matchSpans_cover[OF le ne, of 0]
  consider k where "(length pre', k) \<in> set spans"
    | "\<exists>(j, k) \<in> set spans. j < length pre' \<and> length pre' < j + k"
    unfolding spans_def by auto
  then show "a' @ b' @ c' \<in> set (fullTextPlates u)
           \<or> (\<exists>(j, n) \<in> set (matchSpans fullTextRegex 0 (cleanFullText u)).
                 j < length pre' \<and> length pre' < j + n)"
  proof cases
    case 1
    from matchSpans_first[OF 1[unfolded spans_def]]
    have "k \<in> set (run fullTextRegex (drop (length pre') x))" by auto
    from fullTextRegex_length[OF this] fullTextRegex_length[OF lm] have "k = length m" by simp
    then have "take k (drop (length pre') x) = m" by (simp add: dm)
    then have "cleanPlate (take k (drop (length pre') x)) = a' @ b' @ c'" by (simp add: cm)
    moreover have "cleanPlate (take k (drop (length pre') x)) \<in> set (fullTextPlates u)"
      unfolding fullTextPlates_spans x_def[symmetric] spans_def[symmetric]
      using 1 by (force simp: image_iff)
    ultimately show ?thesis by simp
  next
    case 2
    then show ?thesis unfolding spans_def x_def by blast
  qed
next
  show "fullTextPlates v =
       map (\<lambda>(j, n). cleanPlate (take n (drop j (cleanFullText v))))
         (matchSpans fullTextRegex 0 (cleanFullText v))"
    by (rule fullTextPlates_spans)
qed

text \<open>
  The amended C5 at the full text \<open>see AB12CDE XY34  ZZZ\<close>: both plates are found, the
  second one from the substring that starts at position 12.
\<close>

theorem fullTextPlates_scan_witness:
  "fullTextPlates (str ''see AB12CDE XY34  ZZZ'') = [str ''AB12CDE'', str ''XY34ZZZ'']
   \<and> cleanFullText (str ''see AB12CDE XY34  ZZZ'')
       = str ''see AB12CDE '' @ str ''XY'' @ str ''34'' @ str '' '' @ str ''ZZZ'' @ []
   \<and> matchSpans fullTextRegex 0 (cleanFullText (str ''see AB12CDE XY34  ZZZ''))
       = [(4, 7), (12, 8)]
   \<and> (\<exists>pre a b sp c post.
         cleanFullText (str ''see AB12CDE XY34  ZZZ'') = pre @ a @ b @ sp @ c @ post
         \<and> length a = 2 \<and> list_all (in_class Upper) a
         \<and> length b = 2 \<and> list_all (in_class Digit) b
         \<and> list_all (in_class Space) sp
         \<and> length c = 3 \<and> list_all (in_class Upper) c
         \<and> str ''XY34ZZZ'' = a @ b @ c)
   \<and> str ''XY'' @ str ''34'' @ str ''ZZZ'' \<in> set (fullTextPlates (str ''see AB12CDE XY34  ZZZ''))"
proof -
  have e: "fullTextPlates (str ''see AB12CDE XY34  ZZZ'') = [str ''AB12CDE'', str ''XY34ZZZ'']"
    by code_simp
  have c: "cleanFullText (str ''see AB12CDE XY34  ZZZ'')
       = str ''see AB12CDE '' @ str ''XY'' @ str ''34'' @ str '' '' @ str ''ZZZ'' @ []"
    by code_simp
  have sp: "matchSpans fullTextRegex 0 (cleanFullText (str ''see AB12CDE XY34  ZZZ''))
       = [(4, 7), (12, 8)]"
    by code_simp
  have m: "str ''XY34ZZZ'' \<in> set (fullTextPlates (str ''see AB12CDE XY34  ZZZ''))"
    unfolding e by simp
  have k: "length (str ''XY'') = 2 \<and> list_all (in_class Upper) (str ''XY'')
     \<and> length (str ''34'') = 2 \<and> list_all (in_class Digit) (str ''34'')
     \<and> list_all (in_class Space) (str '' '')
     \<and> length (str ''ZZZ'') = 3 \<and> list_all (in_class Upper) (str ''ZZZ'')"
    by code_simp
  have l: "length (str ''see AB12CDE '') = 12" by code_simp
  note t = fullTextPlates_scan[of "str ''XY34ZZZ''" "str ''see AB12CDE XY34  ZZZ''"
        "str ''see AB12CDE XY34  ZZZ''" "str ''see AB12CDE ''" "str ''XY''" "str ''34''"
        "str '' ''" "str ''ZZZ''" "[]" "[]"]
  from t m have ex: "\<exists>pre a b sp c post.
         cleanFullText (str ''see AB12CDE XY34  ZZZ'') = pre @ a @ b @ sp @ c @ post
         \<and> length a = 2 \<and> list_all (in_class Upper) a
         \<and> length b = 2 \<and> list_all (in_class Digit) b
         \<and> list_all (in_class Space) sp
         \<and> length c = 3 \<and> list_all (in_class Upper) c
         \<and> str ''XY34ZZZ'' = a @ b @ c" by blast
  from t c k have "str ''XY'' @ str ''34'' @ str ''ZZZ'' \<in> set (fullTextPlates (str ''see AB12CDE XY34  ZZZ''))
      \<or> (\<exists>(j, n) \<in> set (matchSpans fullTextRegex 0 (cleanFullText (str ''see AB12CDE XY34  ZZZ''))).
                 j < length (str ''see AB12CDE '') \<and> length (str ''see AB12CDE '') < j + n)"
    by blast
  then have "str ''XY'' @ str ''34'' @ str ''ZZZ'' \<in> set (fullTextPlates (str ''see AB12CDE XY34  ZZZ''))"
    unfolding sp l by simp
  with e c sp ex show ?thesis by blast
qed

text \<open>
  C5 as stated fails: in the full text \<open>AB 12 CDE\<close>, with a space between the letter
  pair and the digit pair, the scan finds no candidate, while in \<open>AB12 CDE\<close> it finds
  \<open>AB12CDE\<close>; it finds none in the lower-case text \<open>ab12cde\<close>; and in
  \<open>AB12CDE34FGH\<close> it finds \<open>AB12CDE\<close> only, although \<open>DE34FGH\<close>, which starts inside
  that match, has the shape as well.
\<close>

theorem fullTextPlates_scan_counterexample:
  "fullTextPlates (str ''AB 12 CDE'') = []
   \<and> fullTextPlates (str ''AB12 CDE'') = [str ''AB12CDE'']
   \<and> fullTextPlates (str ''ab12cde'') = []
   \<and> fullTextPlates (str ''AB12CDE34FGH'') = [str ''AB12CDE'']
   \<and> test_anchored fullTextRegex (str ''DE34FGH'')"
  by code_simp

text \<open>
  C8. The list without duplicates has every value of the candidate list exactly once; the
  values keep the order of their first occurrence, so the values of a first list come
  before the new values of a second one, and the candidates of the four methods are
  concatenated in the order full text, single annotations, pairs, triples; removing the
  duplicates twice is the same as removing them once. The candidates are normalised
  already.
\<close>

theorem dedupe_set_reduction:
  "distinct (dedupe xs) \<and> set (dedupe xs) = set xs
   \<and> dedupe (dedupe xs) = dedupe xs
   \<and> dedupe (xs @ ys) = dedupe xs @ filter (\<lambda>y. y \<notin> set xs) (dedupe ys)
   \<and> map cleanPlate (allPlates t anns) = allPlates t anns
   \<and> extractLicensePlates t anns =
       dedupe (fullTextPlates t @ annotationPlates anns
               @ pairPlates (textSegments anns) @ triplePlates (textSegments anns))"
proof (intro conjI)
  show "map cleanPlate (allPlates t anns) = allPlates t anns"
    by (rule map_idI) (simp add: allPlates_valid)
qed (simp_all add: distinct_dedupe set_dedupe dedupe_distinct dedupe_append
      extractLicensePlates_def allPlates_def)


section \<open>The registry lookup and the upload handler: claims C2 and C9\<close>

lemma lookupVehicle_failure:
  "isFailure (registry (toUpperCase (stripSpaces reg))) \<Longrightarrow>
     lookupVehicle registry reg = (None, [toUpperCase (stripSpaces reg)])"
  by (cases "registry (toUpperCase (stripSpaces reg))")
     (auto simp: lookupVehicle_def Let_def split: option.splits)

lemma upload_failure:
  assumes "isFailure (r1 (toUpperCase (stripSpaces (hd (detectedPlates anns)))))"
    and "isFailure (r2 (toUpperCase (stripSpaces (hd (detectedPlates anns)))))"
  shows "upload r1 anns = upload r2 anns"
  using assms
  by (simp add: upload_def Let_def detectedPlates_def lookupVehicle_failure)

lemma upload_requests:
  "detectedPlates anns \<noteq> [] \<Longrightarrow>
     snd (upload registry anns) = [toUpperCase (stripSpaces (hd (detectedPlates anns)))]"
proof -
  assume ne: "detectedPlates anns \<noteq> []"
  then have "anns \<noteq> []" by (auto simp: detectedPlates_Nil)
  with ne show ?thesis
    by (auto simp: upload_def Let_def detectedPlates_def lookupVehicle_def split: prod.splits)
qed

text \<open>
  C2 (as amended). The lookup returns \<^verbatim>\<open>null\<close> after every failure of the registry
  request, whatever its kind: for two registries that only fail (by timeout, by a 404
  answer, by any other error answer, by a body that is not a success or lacks the
  payload), the results of the lookup and the answers of both endpoints are equal. The
  caller cannot tell a failed lookup from an absent vehicle.
\<close>

theorem lookup_failures_alike:
  assumes "\<And>key. isFailure (r1 key)" and "\<And>key. isFailure (r2 key)"
  shows "fst (lookupVehicle r1 reg) = None \<and> lookupVehicle r1 reg = lookupVehicle r2 reg
     \<and> vehicleLookup r1 reg = vehicleLookup r2 reg
     \<and> upload r1 anns = upload r2 anns"
  using assms by (simp add: lookupVehicle_failure vehicleLookup_def upload_failure)

text \<open>
  The amended C2 at a registry that times out and a registry that answers 404.
\<close>

theorem lookup_failures_alike_witness:
  "fst (lookupVehicle registryTimeout (str ''yf65 cvk'')) = None
   \<and> lookupVehicle registryTimeout (str ''yf65 cvk'') = lookupVehicle registryAbsent (str ''yf65 cvk'')
   \<and> vehicleLookup registryTimeout (str ''yf65 cvk'') = vehicleLookup registryAbsent (str ''yf65 cvk'')
   \<and> upload registryTimeout yfAnnotations = upload registryAbsent yfAnnotations"
proof -
  have a: "isFailure (registryTimeout key)" for key by (simp add: registryTimeout_def)
  have b: "isFailure (registryAbsent key)" for key by (simp add: registryAbsent_def)
  show ?thesis by (rule lookup_failures_alike[OF a b])
qed

text \<open>
  C2 as stated fails: for the plate \<open>AB12CDE\<close> the lookup returns \<^verbatim>\<open>null\<close> under the
  timeout and under the 404 answer, the upload answers are equal with the message
  \<open>Vehicle not found in database\<close>, and the lookup endpoint answers the timeout with
  status 404 and \<open>Vehicle not found\<close>.
\<close>

theorem lookup_failures_counterexample:
  "fst (lookupVehicle registryTimeout (str ''AB12CDE'')) = None
   \<and> fst (lookupVehicle registryAbsent (str ''AB12CDE'')) = None
   \<and> message (fst (upload registryTimeout [ann ''AB12CDE'']))
       = str ''License plate(s) detected: AB12CDE - Vehicle not found in database''
   \<and> message (fst (upload registryAbsent [ann ''AB12CDE'']))
       = str ''License plate(s) detected: AB12CDE - Vehicle not found in database''
   \<and> upload registryTimeout [ann ''AB12CDE''] = upload registryAbsent [ann ''AB12CDE'']
   \<and> httpStatus (vehicleLookup registryTimeout (str ''AB12CDE'')) = 404
   \<and> errorText (vehicleLookup registryTimeout (str ''AB12CDE'')) = Some (str ''Vehicle not found'')"
  by code_simp

text \<open>
  C9. When the extraction yields a non-empty list, the handler sends exactly one request
  to the registry, keyed by the first candidate; the response lists all candidates; and
  the key is free of white space and upper-cased.
\<close>

theorem upload_single_lookup:
  assumes "detectedPlates anns \<noteq> []"
  shows "snd (upload registry anns) = [hd (detectedPlates anns)]
     \<and> licensePlates (fst (upload registry anns)) = Some (detectedPlates anns)
     \<and> stripSpaces (hd (detectedPlates anns)) = hd (detectedPlates anns)
     \<and> toUpperCase (hd (detectedPlates anns)) = hd (detectedPlates anns)"
proof -
  have ne: "anns \<noteq> []" using assms by (auto simp: detectedPlates_Nil)
  have "hd (detectedPlates anns) \<in> set (detectedPlates anns)" using assms by simp
  then have c: "cleanPlate (hd (detectedPlates anns)) = hd (detectedPlates anns)"
    by (simp add: detectedPlates_valid)
  have "stripSpaces (cleanPlate x) = cleanPlate x" for x
    by (simp add: cleanPlate_def stripSpaces_toUpperCase stripSpaces_idem)
  moreover have "toUpperCase (cleanPlate x) = cleanPlate x" for x
    by (simp add: cleanPlate_def toUpperCase_idem)
  ultimately have "stripSpaces (hd (detectedPlates anns)) = hd (detectedPlates anns)"
    "toUpperCase (hd (detectedPlates anns)) = hd (detectedPlates anns)"
    using c by metis+
  moreover have "snd (upload registry anns) = [hd (detectedPlates anns)]"
    using upload_requests[OF assms, of registry] c by (simp add: cleanPlate_def)
  ultimately show ?thesis using ne by (simp add: upload_licensePlates)
qed

text \<open>
  C9 at the annotations of the example and a registry that times out.
\<close>

theorem upload_single_lookup_witness:
  "detectedPlates yfAnnotations = [str ''YF65CVK'', str ''CVK'', str ''YF65'']
   \<and> snd (upload registryTimeout yfAnnotations) = [str ''YF65CVK'']
   \<and> licensePlates (fst (upload registryTimeout yfAnnotations))
       = Some [str ''YF65CVK'', str ''CVK'', str ''YF65'']
   \<and> stripSpaces (str ''YF65CVK'') = str ''YF65CVK'' \<and> toUpperCase (str ''YF65CVK'') = str ''YF65CVK''"
proof -
  have v: "detectedPlates yfAnnotations = [str ''YF65CVK'', str ''CVK'', str ''YF65'']" by code_simp
  then have h: "detectedPlates yfAnnotations \<noteq> []" by simp
  show ?thesis using v upload_single_lookup[OF h, of registryTimeout] by simp
qed


section \<open>The collection: claim C10\<close>

lemma save_duplicate:
  "fullModelKey v \<in> set (map fullModel (collectionOf stored)) \<Longrightarrow>
     saveToCollection readOk writeOk i d stored v uri = (False, stored)"
  by (force simp: saveToCollection_def Let_def list_ex_iff image_iff)

lemma save_fresh:
  "fullModelKey v \<notin> set (map fullModel (collectionOf stored)) \<Longrightarrow> readOk \<Longrightarrow> writeOk \<Longrightarrow>
     saveToCollection readOk writeOk i d stored v uri =
       (True, Some (collectionOf stored @
          [\<lparr>cv_id = i, cv_make = vehicle_make v, cv_model = model v, imageUri = uri,
            dateSpotted = d, fullModel = fullModelKey v\<rparr>]))"
  by (force simp: saveToCollection_def Let_def list_ex_iff image_iff)

lemma save_cases:
  "snd (saveToCollection readOk writeOk i d stored v uri) = stored
   \<or> (fullModelKey v \<notin> set (map fullModel (collectionOf stored))
      \<and> snd (saveToCollection readOk writeOk i d stored v uri) =
         Some (collectionOf stored @
          [\<lparr>cv_id = i, cv_make = vehicle_make v, cv_model = model v, imageUri = uri,
            dateSpotted = d, fullModel = fullModelKey v\<rparr>]))"
  by (force simp: saveToCollection_def Let_def list_ex_iff image_iff)

text \<open>
  C10. For a stored collection whose records have pairwise distinct keys
  \<open>fullModel\<close>: saving a vehicle whose key is stored already leaves the stored value
  unchanged; saving a vehicle with a fresh key, the storage working, appends exactly one
  record, whose key is the lower-cased join of make, a space and model; and after any save
  the keys are pairwise distinct again.
\<close>

theorem saveToCollection_unique:
  assumes "distinct (map fullModel (collectionOf stored))"
  shows "(fullModelKey dup \<in> set (map fullModel (collectionOf stored)) \<longrightarrow>
            saveToCollection readOk writeOk i d stored dup uri = (False, stored))
     \<and> (fullModelKey new \<notin> set (map fullModel (collectionOf stored)) \<longrightarrow>
            saveToCollection True True i d stored new uri =
              (True, Some (collectionOf stored @
                 [\<lparr>cv_id = i, cv_make = vehicle_make new, cv_model = model new,
                   imageUri = uri, dateSpotted = d,
                   fullModel = toLowerCase (vehicle_make new @ str '' '' @ model new)\<rparr>])))
     \<and> distinct (map fullModel
          (collectionOf (snd (saveToCollection readOk writeOk i d stored v uri))))"
proof (intro conjI impI)
  show "distinct (map fullModel
          (collectionOf (snd (saveToCollection readOk writeOk i d stored v uri))))"
    using save_cases[of readOk writeOk i d stored v uri] assms
    by (auto simp: collectionOf_def)
qed (simp_all add: save_duplicate save_fresh fullModelKey_def)

text \<open>
  C10 at a collection that holds an Audi Q3 TDI: the same vehicle in another spelling is
  refused, a Ford Fiesta is appended.
\<close>

theorem saveToCollection_unique_witness:
  "distinct (map fullModel (collectionOf sampleStored))
   \<and> saveToCollection True True (str ''1700000000001'') (str ''2023-11-14T22:13:21.000Z'') sampleStored
        (vehicleOf (str ''AUDI'') (str ''Q3 Tdi'')) (str ''file:///b.jpg'') = (False, sampleStored)
   \<and> saveToCollection True True (str ''1700000000001'') (str ''2023-11-14T22:13:21.000Z'') sampleStored
        (vehicleOf (str ''Ford'') (str ''Fiesta'')) (str ''file:///b.jpg'')
       = (True, Some (collectionOf sampleStored @
           [\<lparr>cv_id = str ''1700000000001'', cv_make = str ''Ford'', cv_model = str ''Fiesta'',
             imageUri = str ''file:///b.jpg'', dateSpotted = str ''2023-11-14T22:13:21.000Z'',
             fullModel = str ''ford fiesta''\<rparr>]))
   \<and> distinct (map fullModel (collectionOf (snd
        (saveToCollection True True (str ''1700000000001'') (str ''2023-11-14T22:13:21.000Z'') sampleStored
          (vehicleOf (str ''Ford'') (str ''Fiesta'')) (str ''file:///b.jpg'')))))"
proof -
  have h1: "distinct (map fullModel (collectionOf sampleStored))" by code_simp
  have h2: "fullModelKey (vehicleOf (str ''AUDI'') (str ''Q3 Tdi''))
      \<in> set (map fullModel (collectionOf sampleStored))" by code_simp
  have h3: "fullModelKey (vehicleOf (str ''Ford'') (str ''Fiesta''))
      \<notin> set (map fullModel (collectionOf sampleStored))" by code_simp
  have k: "toLowerCase (str ''Ford'' @ str '' '' @ str ''Fiesta'') = str ''ford fiesta''" by code_simp
  have m: "vehicle_make (vehicleOf (str ''Ford'') (str ''Fiesta'')) = str ''Ford''"
    "model (vehicleOf (str ''Ford'') (str ''Fiesta'')) = str ''Fiesta''" by (simp_all add: vehicleOf_def)
  show ?thesis
    using h1 h2 h3
      saveToCollection_unique[OF h1, of "vehicleOf (str ''AUDI'') (str ''Q3 Tdi'')" True True
        "(str ''1700000000001'')" "(str ''2023-11-14T22:13:21.000Z'')" "(str ''file:///b.jpg'')"
        "vehicleOf (str ''Ford'') (str ''Fiesta'')" "vehicleOf (str ''Ford'') (str ''Fiesta'')"]
    unfolding m k by blast
qed

end
